theory Spec2Isabelle
  imports Complex_Main "HOL-Library.Log_Nat"
begin

section \<open>Numbers and exceptions\<close>

text \<open>
  The script computes with Python numbers: unbounded \<open>int\<close>s (counts, sizes, command-line
  options) and \<open>float\<close>s (durations, sums, averages), which are IEEE doubles; the tensors
  it builds itself hold IEEE single-precision numbers (\<open>float32\<close>). All of them are
  embedded in the rationals.

  The accounting of \<open>AverageMeter.update\<close> is kept in exact arithmetic: there the fields
  of a meter hold the real numbers that the program's floats stand for. Rounding is part
  of the model where the program narrows a number to \<open>float32\<close> (the tensors of
  \<open>accuracy\<close> and of \<open>all_reduce\<close>), in the division that follows the reduction, and in
  the arithmetic and the formatting of the latency and the throughput that are printed.

  What Python does on a division by zero is: \<open>/\<close> and \<open>%\<close> raise \<open>ZeroDivisionError\<close>,
  which every division of the model writes out. An exception is a value of \<open>error\<close>; a
  computation that may raise returns \<open>error + 'a\<close>, with \<open>Inl\<close> for the exception.
\<close>

datatype error =
    ZeroDivisionError
  | RuntimeError
  | TypeError
  | AssertionError
  | ValueError
  | StopIteration
  | NameError

definition py_div :: "rat \<Rightarrow> rat \<Rightarrow> error + rat" where
  "py_div a b = (if b = 0 then Inl ZeroDivisionError else Inr (a / b))"

subsection \<open>Rounding\<close>

text \<open>
  \<open>round_half_even q\<close> is the integer nearest to \<open>q\<close>, the even one of the two when \<open>q\<close>
  lies halfway. \<open>exponent x\<close> is the \<open>e\<close> with \<open>2 ^ e \<le> |x| < 2 ^ (e + 1)\<close>, found from the
  bit lengths of numerator and denominator. \<open>round_to p x\<close> is \<open>x\<close> rounded to \<open>p\<close>
  significant bits, to nearest and ties to even, as IEEE arithmetic rounds the exact
  result of an operation or a conversion; \<open>float32\<close> has 24 significant bits and
  \<open>float64\<close>, Python's \<open>float\<close>, has 53. The range of the exponent is not modelled: no
  number overflows to infinity or falls into the subnormal range.
\<close>

definition round_half_even :: "rat \<Rightarrow> int" where
  "round_half_even q =
     (let n = \<lfloor>q\<rfloor>; r = q - of_int n
      in if r < 1 / 2 then n else if 1 / 2 < r then n + 1 else if even n then n else n + 1)"

definition exponent :: "rat \<Rightarrow> int" where
  "exponent x =
     (let (a, b) = quotient_of \<bar>x\<bar>; k = bitlen a - bitlen b
      in if 2 powi k \<le> \<bar>x\<bar> then k else k - 1)"

definition round_to :: "nat \<Rightarrow> rat \<Rightarrow> rat" where
  "round_to p x =
     (if x = 0 then 0
      else let u = 2 powi (exponent x - int p + 1) in of_int (round_half_even (x / u)) * u)"

definition float32 :: "rat \<Rightarrow> rat" where
  "float32 = round_to 24"

definition float64 :: "rat \<Rightarrow> rat" where
  "float64 = round_to 53"

text \<open>
  \<open>'%3.df' % x\<close> prints \<open>x\<close> with \<open>d\<close> digits after the point, the decimal number with
  \<open>d\<close> digits nearest to the value of the float; the width 3 only pads with blanks.
  \<open>format_f d x\<close> is the number that is printed.
\<close>

definition format_f :: "nat \<Rightarrow> rat \<Rightarrow> rat" where
  "format_f d x = of_int (round_half_even (x * 10 ^ d)) / 10 ^ d"

section \<open>AverageMeter\<close>

datatype Summary = NONE | AVERAGE | SUM | COUNT

text \<open>
  The fields of the class. \<open>sum\<close> is written \<open>sum_m\<close>, since \<open>sum\<close> is HOL's big
  operator.
\<close>

record AverageMeter =
  name :: string
  fmt :: string
  summary_type :: Summary
  val :: rat
  avg :: rat
  sum_m :: rat
  count :: rat

definition reset :: "AverageMeter \<Rightarrow> AverageMeter" where
  "reset m = m\<lparr>val := 0, avg := 0, sum_m := 0, count := 0\<rparr>"

text \<open>\<open>__init__\<close>: store the three arguments, then \<open>reset\<close>.\<close>

definition AverageMeter_init :: "string \<Rightarrow> string \<Rightarrow> Summary \<Rightarrow> AverageMeter" where
  "AverageMeter_init nm f st =
     reset \<lparr>name = nm, fmt = f, summary_type = st, val = 0, avg = 0, sum_m = 0, count = 0\<rparr>"

text \<open>
  \<open>update(val, n)\<close>: the three assignments, then \<open>self.avg = self.sum / self.count\<close>,
  which raises when the new count is zero.
\<close>

definition update :: "AverageMeter \<Rightarrow> rat \<Rightarrow> int \<Rightarrow> error + AverageMeter" where
  "update m v n =
     (let s = sum_m m + v * of_int n;
          c = count m + of_int n
      in case py_div s c of
           Inl e \<Rightarrow> Inl e
         | Inr a \<Rightarrow> Inr (m\<lparr>val := v, sum_m := s, count := c, avg := a\<rparr>))"

text \<open>A sequence of \<open>update\<close> calls on one meter; the first exception ends it.\<close>

fun updates :: "AverageMeter \<Rightarrow> (rat \<times> int) list \<Rightarrow> error + AverageMeter" where
  "updates m [] = Inr m"
| "updates m ((v, n) # us) =
     (case update m v n of Inl e \<Rightarrow> Inl e | Inr m' \<Rightarrow> updates m' us)"

subsection \<open>all_reduce\<close>

text \<open>
  \<open>torch.tensor([self.sum, self.count], dtype=torch.float32)\<close>: the two numbers of a
  meter, each narrowed to \<open>float32\<close>. The choice of the device has no effect on the
  values.
\<close>

definition torch_tensor_float32 :: "rat \<times> rat \<Rightarrow> rat \<times> rat" where
  "torch_tensor_float32 x = (float32 (fst x), float32 (snd x))"

text \<open>
  \<open>dist.all_reduce(total, ReduceOp.SUM)\<close> is a call into the framework: every process
  contributes its tensor and each receives the elementwise sum. The tensors hold
  \<open>float32\<close>, so every addition of two of them rounds, and the backend chooses in which
  order and grouping it adds. A \<open>plan\<close> is such a choice: \<open>Rank r\<close> is the tensor that
  process \<open>r\<close> contributes and \<open>Plus\<close> the rounded sum of two partial results; \<open>ranks\<close>
  lists the contributions a plan adds up, \<open>depth\<close> is the number of additions on its
  longest path, and a plan for \<open>n\<close> processes adds each of the \<open>n\<close> contributions
  once.
\<close>

datatype plan = Rank nat | Plus plan plan

fun reduce_SUM :: "plan \<Rightarrow> rat list \<Rightarrow> rat" where
  "reduce_SUM (Rank r) xs = xs ! r"
| "reduce_SUM (Plus p q) xs = float32 (reduce_SUM p xs + reduce_SUM q xs)"

fun ranks :: "plan \<Rightarrow> nat list" where
  "ranks (Rank r) = [r]"
| "ranks (Plus p q) = ranks p @ ranks q"

fun depth :: "plan \<Rightarrow> nat" where
  "depth (Rank r) = 0"
| "depth (Plus p q) = Suc (max (depth p) (depth q))"

definition plan_for :: "nat \<Rightarrow> plan \<Rightarrow> bool" where
  "plan_for n pl \<longleftrightarrow> distinct (ranks pl) \<and> set (ranks pl) = set [0..<n]"

definition dist_all_reduce_SUM :: "plan \<Rightarrow> (rat \<times> rat) list \<Rightarrow> rat \<times> rat" where
  "dist_all_reduce_SUM pl tensors =
     (reduce_SUM pl (map fst tensors), reduce_SUM pl (map snd tensors))"

text \<open>
  \<open>all_reduce\<close> as one process runs it on its meter. \<open>others\<close> are the pairs
  \<open>(sum, count)\<close> of the meters of the other processes of the group, each of which runs
  the same method and so contributes the narrowed pair; in the numbering of the plan
  this process is 0 and the others follow. \<open>total.tolist()\<close> widens the two results to
  Python floats without a change of value, and the division \<open>self.sum / self.count\<close> of
  those floats raises when the reduced count is zero.
\<close>

definition all_reduce :: "AverageMeter \<Rightarrow> (rat \<times> rat) list \<Rightarrow> plan \<Rightarrow> error + AverageMeter" where
  "all_reduce m others pl =
     (let total = dist_all_reduce_SUM pl (map torch_tensor_float32 ((sum_m m, count m) # others));
          s = fst total;
          c = snd total
      in case py_div s c of
           Inl e \<Rightarrow> Inl e
         | Inr a \<Rightarrow> Inr (m\<lparr>sum_m := s, count := c, avg := float64 a\<rparr>))"

section \<open>accuracy\<close>

text \<open>
  \<open>output\<close> is a two-dimensional tensor of scores, one row per sample and one column per
  class. A tensor knows its number of columns also when it has no row, so the model keeps
  it: \<open>size1\<close> is \<open>output.size(1)\<close>. Scores are only compared, so their type is any
  linear order. \<open>target\<close> is the vector of class indices.

  \<open>output.topk(k, 1, True, True)\<close> is a method that the framework implements: for each
  row, the indices of \<open>k\<close> largest entries, largest first. Which of several equal scores
  it selects, and in which order, is the framework's choice, so the answer is a field of
  the tensor: \<open>topk_indices x i k\<close> are the indices returned for row \<open>i\<close>.
\<close>

record 'a Tensor2 =
  size1 :: nat
  rows :: "'a list list"
  topk_indices :: "nat \<Rightarrow> nat \<Rightarrow> nat list"

definition wf_tensor :: "'a Tensor2 \<Rightarrow> bool" where
  "wf_tensor x = list_all (\<lambda>r. length r = size1 x) (rows x)"

text \<open>\<open>topk\<close> raises when \<open>k\<close> exceeds the number of columns.\<close>

definition Tensor_topk :: "'a Tensor2 \<Rightarrow> nat \<Rightarrow> error + nat list list" where
  "Tensor_topk x k =
     (if k \<le> size1 x then Inr (map (\<lambda>i. topk_indices x i k) [0..<length (rows x)])
      else Inl RuntimeError)"

text \<open>
  What the framework promises of the indices \<open>idx\<close> that \<open>topk\<close> returns for a row:
  they are \<open>k\<close> different positions of the row, in descending order of score, and no
  position left out scores higher than one of them.
\<close>

definition topk_sorted :: "'a::linorder list \<Rightarrow> nat \<Rightarrow> nat list \<Rightarrow> bool" where
  "topk_sorted row k idx \<longleftrightarrow>
     length idx = k \<and> distinct idx \<and> set idx \<subseteq> {..<length row} \<and>
     sorted_wrt (\<lambda>i j. row ! j \<le> row ! i) idx \<and>
     (\<forall>i \<in> set idx. \<forall>j < length row. j \<notin> set idx \<longrightarrow> row ! j \<le> row ! i)"

text \<open>
  One implementation, used for the concrete tensors below: the positions of a row in
  descending order of score, the lower index first among equal scores.
\<close>

definition argsort_desc :: "'a::linorder list \<Rightarrow> nat list" where
  "argsort_desc row = rev (sort_key (\<lambda>i. row ! i) (rev [0..<length row]))"

definition stable_tensor :: "nat \<Rightarrow> 'a::linorder list list \<Rightarrow> 'a Tensor2" where
  "stable_tensor n rs =
     \<lparr>size1 = n, rows = rs, topk_indices = (\<lambda>i k. take k (argsort_desc (rs ! i)))\<rparr>"

text \<open>\<open>pred.t()\<close>: the transpose of a tensor with \<open>n\<close> columns.\<close>

definition Tensor_t :: "nat \<Rightarrow> 'b list list \<Rightarrow> 'b list list" where
  "Tensor_t n xss = map (\<lambda>j. map (\<lambda>xs. xs ! j) xss) [0..<n]"

text \<open>
  \<open>target.view(1, -1).expand_as(pred)\<close>: the row of labels repeated for every row of
  \<open>pred\<close>, which has \<open>b\<close> columns. A single label is broadcast to all columns; any other
  length that differs from \<open>b\<close> raises. The result is the row that is repeated.
\<close>

definition expand_as :: "nat list \<Rightarrow> nat \<Rightarrow> error + nat list" where
  "expand_as target b =
     (if length target = b then Inr target
      else if length target = 1 then Inr (replicate b (hd target))
      else Inl RuntimeError)"

text \<open>
  \<open>correct[:k].reshape(-1).float().sum(0, keepdim=True)\<close>: the number of \<open>True\<close> entries
  in the first \<open>k\<close> rows of \<open>correct\<close>, as a \<open>float32\<close> tensor with one entry.
\<close>

definition correct_k :: "bool list list \<Rightarrow> nat \<Rightarrow> nat" where
  "correct_k correct k = length (filter (\<lambda>b. b) (concat (take k correct)))"

text \<open>
  \<open>x.mul_(c)\<close> for a \<open>float32\<close> tensor \<open>x\<close> with one entry and a Python float \<open>c\<close>: the
  framework converts \<open>c\<close> to \<open>float32\<close> and rounds the product to \<open>float32\<close>.
\<close>

definition Tensor_mul :: "rat \<Rightarrow> rat \<Rightarrow> rat" where
  "Tensor_mul x c = float32 (x * float32 c)"

text \<open>
  \<open>accuracy(output, target, topk)\<close>. \<open>max(topk)\<close> raises \<open>ValueError\<close> on an empty
  \<open>topk\<close>; \<open>100.0 / batch_size\<close>, a division of Python floats, raises on an empty batch,
  in the first round of the loop over \<open>topk\<close>. The entries of \<open>topk\<close> are numbers of
  predictions, natural numbers here. Each entry of the result is a tensor with one
  number, which is what the model returns.
\<close>

definition accuracy :: "'a Tensor2 \<Rightarrow> nat list \<Rightarrow> nat list \<Rightarrow> error + rat list" where
  "accuracy output target topk =
     (if topk = [] then Inl ValueError
      else
        let maxk = Max (set topk);
            batch_size = length target
        in case Tensor_topk output maxk of
             Inl e \<Rightarrow> Inl e
           | Inr pred0 \<Rightarrow>
               let pred = Tensor_t maxk pred0
               in case expand_as target (length pred0) of
                    Inl e \<Rightarrow> Inl e
                  | Inr tgt \<Rightarrow>
                      let correct = map (\<lambda>prow. map (\<lambda>(p, l). p = l) (zip prow tgt)) pred
                      in if batch_size = 0 then Inl ZeroDivisionError
                         else Inr (map (\<lambda>k. Tensor_mul (float32 (of_nat (correct_k correct k)))
                                             (float64 (100 / of_nat batch_size))) topk))"

text \<open>
  The words of the specification: a set \<open>S\<close> of class indices is a choice of the \<open>k\<close>
  highest-scored predictions of a row when it has \<open>k\<close> elements and no class outside it
  scores higher than a class inside it.
\<close>

definition k_highest :: "'a::linorder list \<Rightarrow> nat \<Rightarrow> nat set \<Rightarrow> bool" where
  "k_highest row k S \<longleftrightarrow>
     S \<subseteq> {..<length row} \<and> card S = k \<and>
     (\<forall>i \<in> S. \<forall>j < length row. j \<notin> S \<longrightarrow> row ! j \<le> row ! i)"

text \<open>
  The number of samples whose true label is among the first \<open>k\<close> of the \<open>maxk\<close>
  predictions that \<open>topk\<close> returned for that sample; the fraction of the specification is
  this number over the number of samples.
\<close>

definition hits :: "'a Tensor2 \<Rightarrow> nat list \<Rightarrow> nat \<Rightarrow> nat \<Rightarrow> nat" where
  "hits output target maxk k =
     length (filter (\<lambda>i. target ! i \<in> set (take k (topk_indices output i maxk)))
               [0..<length target])"

section \<open>get_image_size\<close>

text \<open>The entries of \<open>params_dict\<close> are (width, depth, res, dropout).\<close>

definition params_dict :: "string \<rightharpoonup> rat \<times> rat \<times> int \<times> rat" where
  "params_dict = map_of
     [(''efficientnet_b0'', (1, 1, 224, 2 / 10)),
      (''efficientnet_b1'', (1, 11 / 10, 240, 2 / 10)),
      (''efficientnet_b2'', (11 / 10, 12 / 10, 260, 3 / 10)),
      (''efficientnet_b3'', (12 / 10, 14 / 10, 300, 3 / 10)),
      (''efficientnet_b4'', (14 / 10, 18 / 10, 380, 4 / 10)),
      (''efficientnet_b5'', (16 / 10, 22 / 10, 456, 4 / 10)),
      (''efficientnet_b6'', (18 / 10, 26 / 10, 528, 5 / 10)),
      (''efficientnet_b7'', (2, 31 / 10, 600, 5 / 10)),
      (''efficientnet_b8'', (22 / 10, 36 / 10, 672, 5 / 10)),
      (''efficientnet_l2'', (43 / 10, 53 / 10, 800, 5 / 10))]"

definition get_image_size :: "string \<Rightarrow> error + int" where
  "get_image_size model_name =
     (case params_dict model_name of
        Some (_, _, res, _) \<Rightarrow> Inr res
      | None \<Rightarrow> Inl AssertionError)"

section \<open>The command line and the data loaders\<close>

text \<open>
  The options of the command line that the functions below read. Those declared with
  \<open>type=int\<close> are Python integers of either sign.
\<close>

record args =
  batch_size :: int
  print_freq :: int
  jit :: bool
  num_iter :: int
  num_warmup :: int
  device :: string
  nv_fuser :: bool
  bn_folding :: bool
  distributed :: bool
  world_size :: int

text \<open>
  A \<open>DataLoader\<close>: the batches it yields in order, its \<open>batch_size\<close> attribute
  (\<open>loader_batch_size\<close>), \<open>len(loader.sampler)\<close> and \<open>len(loader.dataset)\<close>.
\<close>

record 'b DataLoader =
  batches :: "'b list"
  loader_batch_size :: int
  sampler_len :: nat
  dataset_len :: nat

section \<open>The state of a run\<close>

text \<open>
  What \<open>train\<close> and \<open>validate\<close> do is to update their meters, call the model and
  print. The state of a run keeps the meters,
  the model object of every call \<open>model(images)\<close> in order (\<open>forwards\<close>), the values of
  the variables \<open>latency\<close> and \<open>perf\<close> at the two final \<open>print\<close>s (\<open>reported\<close>), the two
  numbers as those \<open>print\<close>s format them (\<open>displayed\<close>), and the lines printed before
  the loop (\<open>printed\<close>).
  \<open>data_time\<close> and the \<open>ProgressMeter\<close> only feed the progress display and are left out,
  as are the lines printed in each iteration.

  A function that runs on this state returns the state it reached together with the
  exception that ended it, if any.
\<close>

record 'm run_state =
  batch_time :: AverageMeter
  losses :: AverageMeter
  top1 :: AverageMeter
  top5 :: AverageMeter
  forwards :: "'m list"
  reported :: "(rat \<times> rat) list"
  displayed :: "(rat \<times> rat) list"
  printed :: "string list"

text \<open>
  The meters as \<open>train\<close> and \<open>validate\<close> create them. \<open>train\<close> leaves the summary type
  at its default, \<open>validate\<close> gives \<open>Summary.NONE\<close> to the first two; \<open>p\<close> are the lines
  printed so far.
\<close>

definition meters_init :: "Summary \<Rightarrow> string list \<Rightarrow> 'm run_state" where
  "meters_init st p =
     \<lparr>batch_time = AverageMeter_init ''Time'' '':6.3f'' st,
      losses = AverageMeter_init ''Loss'' '':.4e'' st,
      top1 = AverageMeter_init ''Acc@1'' '':6.2f'' AVERAGE,
      top5 = AverageMeter_init ''Acc@5'' '':6.2f'' AVERAGE,
      forwards = [], reported = [], displayed = [], printed = p\<rparr>"

text \<open>
  The last four lines of \<open>train\<close> and of \<open>run_validate\<close>:
  \<open>latency = batch_time.avg / batch_size * 1000\<close> and \<open>perf = batch_size / batch_time.avg\<close>.
  \<open>batch_size\<close> is a Python \<open>int\<close>, which each division converts to the nearest float;
  the quotients and the product are rounded as floats are.
\<close>

definition latency_perf :: "rat \<Rightarrow> int \<Rightarrow> error + rat \<times> rat" where
  "latency_perf a bs =
     (case py_div a (float64 (of_int bs)) of
        Inl e \<Rightarrow> Inl e
      | Inr q \<Rightarrow>
          (case py_div (float64 (of_int bs)) a of
             Inl e \<Rightarrow> Inl e
           | Inr perf \<Rightarrow> Inr (float64 (float64 q * 1000), float64 perf)))"

text \<open>
  The two \<open>print\<close>s format the numbers with \<open>%3.0f\<close> in \<open>train\<close> and with \<open>%3.3f\<close> in
  \<open>run_validate\<close>; \<open>d\<close> is that number of digits.
\<close>

definition report :: "nat \<Rightarrow> int \<Rightarrow> 'm run_state \<Rightarrow> error option \<times> 'm run_state" where
  "report d bs s =
     (case latency_perf (avg (batch_time s)) bs of
        Inl e \<Rightarrow> (Some e, s)
      | Inr lp \<Rightarrow>
          (None, s\<lparr>reported := reported s @ [lp],
                   displayed := displayed s @ [(format_f d (fst lp), format_f d (snd lp))]\<rparr>))"

section \<open>train\<close>

text \<open>
  What the framework contributes to iteration \<open>i\<close> of \<open>train\<close>: the output of the forward
  pass, the value of the loss, and the time measured from \<open>start_time\<close> to the end of the
  timed block. The calls into the framework (forward and backward pass, optimizer,
  transfers, synchronisation, the profiling context) are taken to return.
\<close>

record 'a framework =
  output_of :: "nat \<Rightarrow> 'a Tensor2"
  loss_of :: "nat \<Rightarrow> rat"
  duration_of :: "nat \<Rightarrow> rat"

text \<open>
  One round of the loop of \<open>train\<close>, after the test for \<open>break\<close>. A batch is the pair of
  \<open>images.size(0)\<close> and \<open>target\<close>. \<open>i % args.print_freq\<close> raises when \<open>print_freq\<close> is
  zero.
\<close>

definition train_step ::
  "args \<Rightarrow> 'a framework \<Rightarrow> 'm \<Rightarrow> nat \<Rightarrow> nat \<times> nat list \<Rightarrow> 'm run_state
     \<Rightarrow> error option \<times> 'm run_state" where
  "train_step a fw model i b s =
     (let n = fst b;
          target = snd b;
          s1 = s\<lparr>forwards := forwards s @ [model]\<rparr>
      in case accuracy (output_of fw i) target [1, 5] of
           Inl e \<Rightarrow> (Some e, s1)
         | Inr res \<Rightarrow>
            (case update (losses s1) (loss_of fw i) (int n) of
               Inl e \<Rightarrow> (Some e, s1)
             | Inr l \<Rightarrow>
                (let s2 = s1\<lparr>losses := l\<rparr>
                 in case update (top1 s2) (res ! 0) (int n) of
                      Inl e \<Rightarrow> (Some e, s2)
                    | Inr t1 \<Rightarrow>
                       (let s3 = s2\<lparr>top1 := t1\<rparr>
                        in case update (top5 s3) (res ! 1) (int n) of
                             Inl e \<Rightarrow> (Some e, s3)
                           | Inr t5 \<Rightarrow>
                              (let s4 = s3\<lparr>top5 := t5\<rparr>
                               in case (if num_warmup a \<le> int i
                                        then update (batch_time s4) (duration_of fw i) 1
                                        else Inr (batch_time s4)) of
                                    Inl e \<Rightarrow> (Some e, s4)
                                  | Inr bt \<Rightarrow>
                                     (let s5 = s4\<lparr>batch_time := bt\<rparr>
                                      in if print_freq a = 0 then (Some ZeroDivisionError, s5)
                                         else (None, s5)))))))"

text \<open>
  \<open>for i, (images, target) in enumerate(train_loader)\<close>, from index \<open>i\<close> on, with the
  batches that are left.
\<close>

fun train_loop ::
  "args \<Rightarrow> 'a framework \<Rightarrow> 'm \<Rightarrow> nat \<Rightarrow> (nat \<times> nat list) list \<Rightarrow> 'm run_state
     \<Rightarrow> error option \<times> 'm run_state" where
  "train_loop a fw model i [] s = (None, s)"
| "train_loop a fw model i (b # bs) s =
     (if int i = num_iter a then (None, s)
      else case train_step a fw model i b s of
             (Some e, s') \<Rightarrow> (Some e, s')
           | (None, s') \<Rightarrow> train_loop a fw model (Suc i) bs s')"

text \<open>
  A batch on which a round of \<open>train\<close> raises nothing: it has images, one label per row
  of the output, and at least five classes, as \<open>topk=(1, 5)\<close> needs. \<open>counting\<close> holds of
  a state whose meters have counted no negative number of samples.
\<close>

definition good_batch :: "'a Tensor2 \<Rightarrow> nat \<times> nat list \<Rightarrow> bool" where
  "good_batch out b \<longleftrightarrow>
     0 < fst b \<and> snd b \<noteq> [] \<and> length (snd b) = length (rows out) \<and> 5 \<le> size1 out"

definition counting :: "'m run_state \<Rightarrow> bool" where
  "counting s \<longleftrightarrow>
     0 \<le> count (batch_time s) \<and> 0 \<le> count (losses s) \<and> 0 \<le> count (top1 s) \<and> 0 \<le> count (top5 s)"

definition train ::
  "args \<Rightarrow> 'a framework \<Rightarrow> (nat \<times> nat list) DataLoader \<Rightarrow> 'm
     \<Rightarrow> error option \<times> 'm run_state" where
  "train a fw train_loader model =
     (case train_loop a fw model 0 (batches train_loader) (meters_init AVERAGE []) of
        (Some e, s) \<Rightarrow> (Some e, s)
      | (None, s) \<Rightarrow> report 0 (loader_batch_size train_loader) s)"

section \<open>validate\<close>

text \<open>
  What the environment contributes to a call of \<open>validate\<close>: \<open>torch.jit.trace\<close> on the
  model and the sample input, the time measured in iteration \<open>i\<close> of the first and of
  the second call of \<open>run_validate\<close>, the batches of the auxiliary loader, the pairs
  \<open>(sum, count)\<close> of the meters \<open>top1\<close> and \<open>top5\<close> of the other processes, and the plan
  by which the backend adds up the contributions to a reduction.
\<close>

record ('m, 'i, 'l) environment =
  jit_trace :: "'m \<Rightarrow> 'i \<Rightarrow> error + 'm"
  duration :: "nat \<Rightarrow> rat"
  aux_duration :: "nat \<Rightarrow> rat"
  aux_batches :: "('i \<times> 'l) list"
  others_top1 :: "(rat \<times> rat) list"
  others_top5 :: "(rat \<times> rat) list"
  reduction :: plan

text \<open>
  \<open>for i, (images, target) in enumerate(loader)\<close> of \<open>run_validate\<close>, from index \<open>i\<close> on:
  \<open>model\<close> and \<open>batch_time\<close> are variables of the enclosing \<open>validate\<close>.
\<close>

fun run_validate_loop ::
  "args \<Rightarrow> 'm \<Rightarrow> (nat \<Rightarrow> rat) \<Rightarrow> nat \<Rightarrow> 'b list \<Rightarrow> 'm run_state
     \<Rightarrow> error option \<times> 'm run_state" where
  "run_validate_loop a model dur i [] s = (None, s)"
| "run_validate_loop a model dur i (b # bs) s =
     (if int i = num_iter a then (None, s)
      else
        let s1 = s\<lparr>forwards := forwards s @ [model]\<rparr>
        in if num_warmup a \<le> int i
           then (case update (batch_time s1) (dur i) 1 of
                   Inl e \<Rightarrow> (Some e, s1)
                 | Inr bt \<Rightarrow> run_validate_loop a model dur (Suc i) bs (s1\<lparr>batch_time := bt\<rparr>))
           else run_validate_loop a model dur (Suc i) bs s1)"

definition run_validate ::
  "args \<Rightarrow> 'm \<Rightarrow> (nat \<Rightarrow> rat) \<Rightarrow> 'b list \<Rightarrow> 'm run_state \<Rightarrow> error option \<times> 'm run_state" where
  "run_validate a model dur loader s =
     (case run_validate_loop a model dur 0 loader s of
        (Some e, s') \<Rightarrow> (Some e, s')
      | (None, s') \<Rightarrow> report 3 (batch_size a) s')"

text \<open>
  The first part of \<open>validate\<close>, up to the definition of \<open>run_validate\<close>: the model that
  the loop will call and the lines printed, or the exception that ends \<open>validate\<close> there.
  \<open>iter(val_loader).__next__()\<close> raises \<open>StopIteration\<close> on a loader without batches. Only
  \<open>RuntimeError\<close> and \<open>TypeError\<close> are caught; of the line that prints the exception the
  model keeps the fixed text.

  The statement under \<open>args.bn_folding and args.device == "cuda"\<close> calls
  \<open>wrap_cpp_module\<close>, a name that the module neither defines nor imports. Python looks
  up the callee before it evaluates the argument, so the statement raises \<open>NameError\<close>
  before the folding pass is called, nothing catches it, and the line
  \<open>---- Conv+bn folding\<close> is never printed.
\<close>

definition select_model ::
  "args \<Rightarrow> ('m, 'i, 'l) environment \<Rightarrow> ('i \<times> 'l) DataLoader \<Rightarrow> 'm
     \<Rightarrow> string list \<times> (error + 'm)" where
  "select_model a env val_loader model =
     (let fuser_mode = (if nv_fuser a then ''fuser2'' else ''none'');
          p0 = [''---- fuser mode: '' @ fuser_mode]
      in if jit a then
           (case batches val_loader of
              [] \<Rightarrow> (p0, Inl StopIteration)
            | x # _ \<Rightarrow>
               (let sample_input = fst x;
                    traced =
                      (case jit_trace env model sample_input of
                         Inr modelJit \<Rightarrow> (p0 @ [''---- Use trace model.''], Inr modelJit)
                       | Inl e \<Rightarrow>
                          if e = RuntimeError \<or> e = TypeError
                          then (p0 @ [''---- JIT trace disable.'',
                                      ''failed to use PyTorch jit mode due to: ''], Inr model)
                          else (p0, Inl e))
                in case traced of
                     (p1, Inl e) \<Rightarrow> (p1, Inl e)
                   | (p1, Inr model1) \<Rightarrow>
                      if bn_folding a \<and> device a = ''cuda''
                      then (p1, Inl NameError)
                      else (p1, Inr model1)))
         else (p0, Inr model))"

text \<open>
  The reductions of \<open>top1\<close> and \<open>top5\<close> and the second call of \<open>run_validate\<close>, which
  \<open>validate\<close> makes in a distributed run.
\<close>

definition validate_distributed ::
  "args \<Rightarrow> ('m, 'i, 'l) environment \<Rightarrow> ('i \<times> 'l) DataLoader \<Rightarrow> 'm \<Rightarrow> 'm run_state
     \<Rightarrow> error option \<times> 'm run_state" where
  "validate_distributed a env val_loader model s =
     (case all_reduce (top1 s) (others_top1 env) (reduction env) of
        Inl e \<Rightarrow> (Some e, s)
      | Inr t1 \<Rightarrow>
         (let s1 = s\<lparr>top1 := t1\<rparr>
          in case all_reduce (top5 s1) (others_top5 env) (reduction env) of
               Inl e \<Rightarrow> (Some e, s1)
             | Inr t5 \<Rightarrow>
                (let s2 = s1\<lparr>top5 := t5\<rparr>
                 in if int (sampler_len val_loader) * world_size a < int (dataset_len val_loader)
                    then run_validate a model (aux_duration env) (aux_batches env) s2
                    else (None, s2))))"

text \<open>\<open>validate\<close>; the value it returns is \<open>avg\<close> of \<open>top1\<close> in the final state.\<close>

definition validate ::
  "args \<Rightarrow> ('m, 'i, 'l) environment \<Rightarrow> ('i \<times> 'l) DataLoader \<Rightarrow> 'm
     \<Rightarrow> error option \<times> 'm run_state" where
  "validate a env val_loader model0 =
     (case select_model a env val_loader model0 of
        (p, Inl e) \<Rightarrow> (Some e, meters_init NONE p)
      | (p, Inr model) \<Rightarrow>
         (case run_validate a model (duration env) (batches val_loader) (meters_init NONE p) of
            (Some e, s) \<Rightarrow> (Some e, s)
          | (None, s) \<Rightarrow>
             if distributed a then validate_distributed a env val_loader model s
             else (None, s)))"

section \<open>Two concrete runs\<close>

text \<open>
  Inputs on which the functions above are evaluated below: options with three
  iterations of which the first is a warmup, a training set of four batches of two
  samples over five classes, and a validation set of four batches.
\<close>

definition example_args :: args where
  "example_args =
     \<lparr>batch_size = 4, print_freq = 10, jit = False, num_iter = 3, num_warmup = 1,
      device = ''cpu'', nv_fuser = False, bn_folding = False, distributed = False,
      world_size = - 1\<rparr>"

definition example_framework :: "int framework" where
  "example_framework =
     \<lparr>output_of = (\<lambda>i. stable_tensor 5 [[1, 2, 3, 4, 5], [5, 4, 3, 2, 1]]),
      loss_of = (\<lambda>i. 1),
      duration_of = (\<lambda>i. of_nat i + 1)\<rparr>"

definition example_train_loader :: "(nat \<times> nat list) DataLoader" where
  "example_train_loader =
     \<lparr>batches = [(2, [4, 1]), (2, [0, 0]), (2, [3, 3]), (2, [1, 1])],
      loader_batch_size = 2, sampler_len = 8, dataset_len = 8\<rparr>"

definition example_val_loader :: "(nat \<times> nat) DataLoader" where
  "example_val_loader =
     \<lparr>batches = [(0, 0), (1, 1), (2, 2), (3, 3)],
      loader_batch_size = 4, sampler_len = 16, dataset_len = 16\<rparr>"

text \<open>
  An environment of two processes in which tracing fails with \<open>RuntimeError\<close>; the
  models are numbered.
\<close>

definition example_environment :: "(nat, nat, nat) environment" where
  "example_environment =
     \<lparr>jit_trace = (\<lambda>m x. Inl RuntimeError),
      duration = (\<lambda>i. of_nat i + 1),
      aux_duration = (\<lambda>i. 1),
      aux_batches = [],
      others_top1 = [(0, 0)],
      others_top5 = [(0, 0)],
      reduction = Plus (Rank 0) (Rank 1)\<rparr>"

section \<open>The rounds of the two loops\<close>

text \<open>
  Both loops leave by \<open>break\<close> when the index equals \<open>num_iter\<close>, and otherwise when the
  loader is exhausted. \<open>rounds ni i n\<close> is the number of rounds run from index \<open>i\<close> on
  with \<open>n\<close> batches left; \<open>executed ni n\<close> is that number for a whole loader of \<open>n\<close>
  batches, and \<open>measured a n\<close> are the indices of the rounds whose index has reached
  \<open>num_warmup\<close>.
\<close>

fun rounds :: "int \<Rightarrow> nat \<Rightarrow> nat \<Rightarrow> nat" where
  "rounds ni i 0 = 0"
| "rounds ni i (Suc n) = (if int i = ni then 0 else Suc (rounds ni (Suc i) n))"

definition executed :: "int \<Rightarrow> nat \<Rightarrow> nat" where
  "executed ni n = (if 0 \<le> ni then min (nat ni) n else n)"

definition measured :: "args \<Rightarrow> nat \<Rightarrow> nat list" where
  "measured a n = filter (\<lambda>i. num_warmup a \<le> int i) [0..<executed (num_iter a) n]"

section \<open>Properties of rounding\<close>

lemma round_half_even_floor:
  "\<lfloor>q\<rfloor> \<le> round_half_even q \<and> round_half_even q \<le> \<lfloor>q\<rfloor> + 1"
  by (simp add: round_half_even_def Let_def)

lemma round_half_even_bounds: "\<bar>of_int (round_half_even q) - q\<bar> \<le> 1 / 2"
proof -
  have "of_int \<lfloor>q\<rfloor> \<le> q" and "q < of_int \<lfloor>q\<rfloor> + 1" by linarith+
  then show ?thesis
    by (auto simp: round_half_even_def Let_def abs_le_iff)
qed

lemma round_half_even_of_int: "round_half_even (of_int n) = n"
  by (simp add: round_half_even_def)

lemma round_half_even_mono:
  assumes "q \<le> q'"
  shows "round_half_even q \<le> round_half_even q'"
proof (cases "\<lfloor>q\<rfloor> = \<lfloor>q'\<rfloor>")
  case True
  with assms show ?thesis
    by (auto simp: round_half_even_def Let_def)
next
  case False
  with assms have "\<lfloor>q\<rfloor> < \<lfloor>q'\<rfloor>"
    using floor_mono [OF assms] by linarith
  with round_half_even_floor [of q] round_half_even_floor [of q'] show ?thesis
    by linarith
qed

lemma exponent_bounds:
  assumes "x \<noteq> 0"
  shows "2 powi exponent x \<le> \<bar>x\<bar> \<and> \<bar>x\<bar> < 2 powi (exponent x + 1)"
proof -
  obtain a b where q: "quotient_of \<bar>x\<bar> = (a, b)" by (cases "quotient_of \<bar>x\<bar>")
  from quotient_of_denom_pos [OF q] have b: "0 < b" .
  from quotient_of_div [OF q] have x: "\<bar>x\<bar> = of_int a / of_int b" .
  from assms have "0 < \<bar>x\<bar>" by simp
  with x b have a: "0 < a" by (simp add: zero_less_divide_iff)
  define la where "la = bitlen a"
  define lb where "lb = bitlen b"
  have la1: "1 \<le> la" and lb1: "1 \<le> lb"
    using a b bitlen_nonneg [of a] bitlen_nonneg [of b]
      bitlen_eq_zero_iff [of a] bitlen_eq_zero_iff [of b]
    unfolding la_def lb_def by linarith+
  from bitlen_bounds [OF a] have "2 ^ nat (la - 1) \<le> a" "a < 2 ^ nat la"
    by (simp_all add: la_def)
  then have "(of_int (2 ^ nat (la - 1)) :: rat) \<le> of_int a" "(of_int a :: rat) < of_int (2 ^ nat la)"
    by (simp_all only: of_int_le_iff of_int_less_iff)
  with la1 have A: "(2::rat) powi (la - 1) \<le> of_int a" "(of_int a :: rat) < 2 powi la"
    by (simp_all add: power_int_def)
  from bitlen_bounds [OF b] have "2 ^ nat (lb - 1) \<le> b" "b < 2 ^ nat lb"
    by (simp_all add: lb_def)
  then have "(of_int (2 ^ nat (lb - 1)) :: rat) \<le> of_int b" "(of_int b :: rat) < of_int (2 ^ nat lb)"
    by (simp_all only: of_int_le_iff of_int_less_iff)
  with lb1 have B: "(2::rat) powi (lb - 1) \<le> of_int b" "(of_int b :: rat) < 2 powi lb"
    by (simp_all add: power_int_def)
  define k where "k = la - lb"
  have bpos: "(0::rat) < of_int b" using b by simp
  have apos: "(0::rat) < of_int a" using a by simp
  have up: "\<bar>x\<bar> < 2 powi (k + 1)"
  proof -
    have "of_int a / of_int b < (2::rat) powi la / of_int b"
      using A(2) bpos by (simp add: divide_strict_right_mono)
    also have "\<dots> \<le> 2 powi la / 2 powi (lb - 1)"
      using B(1) bpos by (intro divide_left_mono mult_pos_pos) simp_all
    also have "\<dots> = 2 powi (la - (lb - 1))"
      by (simp add: power_int_diff)
    finally show ?thesis by (simp add: x k_def algebra_simps)
  qed
  have lo: "2 powi (k - 1) < \<bar>x\<bar>"
  proof -
    have "(2::rat) powi (k - 1) = 2 powi (la - 1) / 2 powi lb"
      by (simp add: k_def power_int_diff [symmetric] algebra_simps)
    also have "\<dots> \<le> of_int a / 2 powi lb"
      using A(1) by (simp add: divide_right_mono)
    also have "\<dots> < of_int a / of_int b"
      using B(2) apos bpos by (intro divide_strict_left_mono) simp_all
    finally show ?thesis by (simp add: x)
  qed
  have e: "exponent x = (if 2 powi k \<le> \<bar>x\<bar> then k else k - 1)"
    by (simp add: exponent_def q la_def lb_def k_def)
  show ?thesis
  proof (cases "2 powi k \<le> \<bar>x\<bar>")
    case True
    with e up show ?thesis by simp
  next
    case False
    with e lo show ?thesis by simp
  qed
qed

lemma two_powi_mono:
  assumes "m \<le> n"
  shows "(2::rat) powi m \<le> 2 powi n"
proof (cases "m = n")
  case True
  then show ?thesis by simp
next
  case False
  with assms have "m < n" by simp
  then have "(2::rat) powi m < 2 powi n"
    by (rule power_int_strict_increasing) simp
  then show ?thesis by simp
qed

lemma two_powi_less_imp:
  assumes "(2::rat) powi m < 2 powi n"
  shows "m < n"
proof (rule ccontr)
  assume "\<not> m < n"
  then have "n \<le> m" by simp
  then have "(2::rat) powi n \<le> 2 powi m" by (rule two_powi_mono)
  with assms show False by simp
qed

lemma exponent_unique:
  assumes "2 powi e \<le> \<bar>x\<bar>" and "\<bar>x\<bar> < 2 powi (e + 1)"
  shows "exponent x = e"
proof -
  have "(0::rat) < 2 powi e" by (rule zero_less_power_int) simp
  with assms(1) have "0 < \<bar>x\<bar>" by linarith
  then have "x \<noteq> 0" by simp
  from exponent_bounds [OF this] have b: "2 powi exponent x \<le> \<bar>x\<bar>" "\<bar>x\<bar> < 2 powi (exponent x + 1)"
    by simp_all
  from b(1) assms(2) have "(2::rat) powi exponent x < 2 powi (e + 1)" by simp
  then have "exponent x < e + 1" by (rule two_powi_less_imp)
  moreover from assms(1) b(2) have "(2::rat) powi e < 2 powi (exponent x + 1)" by simp
  then have "e < exponent x + 1" by (rule two_powi_less_imp)
  ultimately show ?thesis by simp
qed

lemma exponent_mono:
  assumes "0 < x" and "x \<le> y"
  shows "exponent x \<le> exponent y"
proof -
  from assms have x: "x \<noteq> 0" and y: "y \<noteq> 0" by simp_all
  from exponent_bounds [OF x] exponent_bounds [OF y] assms
  have "(2::rat) powi exponent x < 2 powi (exponent y + 1)" by simp
  then have "exponent x < exponent y + 1" by (rule two_powi_less_imp)
  then show ?thesis by simp
qed

lemma round_to_0: "round_to p 0 = 0"
  by (simp add: round_to_def)

lemma round_to_error: "\<bar>round_to p x - x\<bar> \<le> \<bar>x\<bar> / 2 ^ p"
proof (cases "x = 0")
  case True
  then show ?thesis by (simp add: round_to_def)
next
  case False
  define u :: rat where "u = 2 powi (exponent x - int p + 1)"
  have u: "0 < u" by (simp add: u_def)
  have r: "round_to p x = of_int (round_half_even (x / u)) * u"
    using False by (simp add: round_to_def u_def Let_def)
  have "\<bar>round_to p x - x\<bar> = \<bar>of_int (round_half_even (x / u)) - x / u\<bar> * u"
  proof -
    have "round_to p x - x = (of_int (round_half_even (x / u)) - x / u) * u"
      using u by (simp add: r algebra_simps)
    then show ?thesis using u by (simp add: abs_mult)
  qed
  also have "\<dots> \<le> 1 / 2 * u"
    using round_half_even_bounds [of "x / u"] u by (intro mult_right_mono) simp_all
  also have "\<dots> = 2 powi exponent x / 2 ^ p"
  proof -
    have "u = 2 powi (exponent x - int p) * 2"
      unfolding u_def by (rule power_int_add_1) simp
    also have "(2::rat) powi (exponent x - int p) = 2 powi exponent x / 2 powi int p"
      by (rule power_int_diff) simp
    finally show ?thesis by simp
  qed
  also have "\<dots> \<le> \<bar>x\<bar> / 2 ^ p"
    using exponent_bounds [OF False] by (simp add: divide_right_mono)
  finally show ?thesis .
qed

lemma round_to_nonneg:
  assumes "0 \<le> x"
  shows "0 \<le> round_to p x"
proof (cases "x = 0")
  case True
  then show ?thesis by (simp add: round_to_def)
next
  case False
  define u :: rat where "u = 2 powi (exponent x - int p + 1)"
  have u: "0 < u" by (simp add: u_def)
  from assms u have "0 \<le> x / u" by simp
  from round_half_even_mono [OF this] have "0 \<le> round_half_even (x / u)"
    using round_half_even_of_int [of 0] by simp
  with u False show ?thesis by (simp add: round_to_def Let_def u_def [symmetric])
qed

lemma round_to_between:
  assumes "0 < x" and "1 \<le> p"
  shows "2 powi exponent x \<le> round_to p x \<and> round_to p x \<le> 2 powi (exponent x + 1)"
proof -
  define e where "e = exponent x"
  define u :: rat where "u = 2 powi (e - int p + 1)"
  have u: "0 < u" by (simp add: u_def)
  from assms have x0: "x \<noteq> 0" by simp
  from exponent_bounds [OF x0] assms have b: "2 powi e \<le> x" "x < 2 powi (e + 1)"
    by (simp_all add: e_def)
  have r: "round_to p x = of_int (round_half_even (x / u)) * u"
    using x0 by (simp add: round_to_def u_def e_def Let_def)
  have lo_u: "2 powi e = of_int (2 ^ (p - 1)) * u"
  proof -
    have "(2::rat) powi e = 2 powi (int (p - 1) + (e - int p + 1))"
      using assms(2) by (simp add: of_nat_diff)
    also have "\<dots> = 2 powi int (p - 1) * u"
      unfolding u_def by (rule power_int_add) simp
    finally show ?thesis by simp
  qed
  have hi_u: "2 powi (e + 1) = of_int (2 ^ p) * u"
  proof -
    have "(2::rat) powi (e + 1) = 2 powi (int p + (e - int p + 1))" by simp
    also have "\<dots> = 2 powi int p * u"
      unfolding u_def by (rule power_int_add) simp
    finally show ?thesis by simp
  qed
  have "of_int (2 ^ (p - 1)) \<le> x / u"
    using b(1) u unfolding lo_u by (simp add: pos_le_divide_eq)
  from round_half_even_mono [OF this] have "2 ^ (p - 1) \<le> round_half_even (x / u)"
    by (simp only: round_half_even_of_int)
  then have "(of_int (2 ^ (p - 1)) :: rat) \<le> of_int (round_half_even (x / u))"
    by (simp only: of_int_le_iff)
  then have lo: "2 powi e \<le> round_to p x"
    unfolding lo_u r using u by (intro mult_right_mono) simp_all
  have "x / u \<le> of_int (2 ^ p)"
    using b(2) u unfolding hi_u by (simp add: pos_divide_le_eq)
  from round_half_even_mono [OF this] have "round_half_even (x / u) \<le> 2 ^ p"
    by (simp only: round_half_even_of_int)
  then have "(of_int (round_half_even (x / u)) :: rat) \<le> of_int (2 ^ p)"
    by (simp only: of_int_le_iff)
  then have hi: "round_to p x \<le> 2 powi (e + 1)"
    unfolding hi_u r using u by (intro mult_right_mono) simp_all
  from lo hi show ?thesis by (simp add: e_def)
qed

lemma round_to_mono:
  assumes "0 \<le> x" and "x \<le> y" and "1 \<le> p"
  shows "round_to p x \<le> round_to p y"
proof (cases "x = 0")
  case True
  with assms round_to_nonneg [of y p] show ?thesis by (simp add: round_to_0)
next
  case False
  with assms have x: "0 < x" and y: "0 < y" by simp_all
  from exponent_mono [OF x assms(2)] have le: "exponent x \<le> exponent y" .
  show ?thesis
  proof (cases "exponent x = exponent y")
    case True
    define u :: rat where "u = 2 powi (exponent y - int p + 1)"
    have u: "0 < u" by (simp add: u_def)
    from assms(2) u have "x / u \<le> y / u" by (simp add: divide_right_mono)
    from round_half_even_mono [OF this]
    have "(of_int (round_half_even (x / u)) :: rat) \<le> of_int (round_half_even (y / u))"
      by simp
    then have "of_int (round_half_even (x / u)) * u \<le> of_int (round_half_even (y / u)) * u"
      using u by (intro mult_right_mono) simp_all
    with x y True show ?thesis by (simp add: round_to_def u_def Let_def)
  next
    case False
    with le have "exponent x + 1 \<le> exponent y" by simp
    then have "(2::rat) powi (exponent x + 1) \<le> 2 powi exponent y" by (rule two_powi_mono)
    with round_to_between [OF x assms(3)] round_to_between [OF y assms(3)] show ?thesis
      by linarith
  qed
qed

lemma exponent_scale:
  assumes "x \<noteq> 0"
  shows "exponent (x * 2 powi k) = exponent x + k"
proof (rule exponent_unique)
  have p: "(0::rat) < 2 powi k" by simp
  from exponent_bounds [OF assms] have b: "2 powi exponent x \<le> \<bar>x\<bar>" "\<bar>x\<bar> < 2 powi (exponent x + 1)"
    by simp_all
  have "(2::rat) powi (exponent x + k) = 2 powi exponent x * 2 powi k"
    by (rule power_int_add) simp
  also have "\<dots> \<le> \<bar>x\<bar> * 2 powi k"
    using b(1) p by (intro mult_right_mono) simp_all
  finally show "2 powi (exponent x + k) \<le> \<bar>x * 2 powi k\<bar>"
    by (simp add: abs_mult)
  have "\<bar>x * 2 powi k\<bar> = \<bar>x\<bar> * 2 powi k" by (simp add: abs_mult)
  also have "\<dots> < 2 powi (exponent x + 1) * 2 powi k"
    using b(2) p by (intro mult_strict_right_mono) simp_all
  also have "\<dots> = 2 powi (exponent x + 1 + k)"
    by (rule power_int_add [symmetric]) simp
  finally show "\<bar>x * 2 powi k\<bar> < 2 powi (exponent x + k + 1)"
    by (simp add: algebra_simps)
qed

lemma round_to_scale: "round_to p (x * 2 powi k) = round_to p x * 2 powi k"
proof (cases "x = 0")
  case True
  then show ?thesis by (simp add: round_to_def)
next
  case False
  define u :: rat where "u = 2 powi (exponent x - int p + 1)"
  have u: "0 < u" by (simp add: u_def)
  have "(2::rat) powi (exponent x + k - int p + 1) = 2 powi ((exponent x - int p + 1) + k)"
    by (simp add: algebra_simps)
  also have "\<dots> = u * 2 powi k"
    unfolding u_def by (rule power_int_add) simp
  finally have uk: "(2::rat) powi (exponent x + k - int p + 1) = u * 2 powi k" .
  have "x * 2 powi k / (u * 2 powi k) = x / u" by simp
  with False show ?thesis
    by (simp add: round_to_def Let_def exponent_scale uk u_def [symmetric] del: times_divide_eq_left)
qed

lemma round_to_of_int:
  assumes "\<bar>n\<bar> \<le> 2 ^ p" and "1 \<le> p"
  shows "round_to p (of_int n) = of_int n"
proof (cases "n = 0")
  case True
  then show ?thesis by (simp add: round_to_def)
next
  case False
  define x :: rat where "x = of_int n"
  define e where "e = exponent x"
  from False have x0: "x \<noteq> 0" by (simp add: x_def)
  from exponent_bounds [OF x0] have b: "2 powi e \<le> \<bar>x\<bar>" "\<bar>x\<bar> < 2 powi (e + 1)"
    by (simp_all add: e_def)
  from assms have "(of_int \<bar>n\<bar> :: rat) \<le> of_int (2 ^ p)"
    by (simp only: of_int_le_iff)
  then have xp: "\<bar>x\<bar> \<le> 2 powi int p"
    by (simp add: x_def)
  have "(2::rat) powi int p < 2 powi (int p + 1)"
    by (rule power_int_strict_increasing) simp_all
  with b(1) xp have "(2::rat) powi e < 2 powi (int p + 1)" by linarith
  then have "e < int p + 1" by (rule two_powi_less_imp)
  then have ep: "e \<le> int p" by simp
  define u :: rat where "u = 2 powi (e - int p + 1)"
  have r: "round_to p x = of_int (round_half_even (x / u)) * u"
    using x0 by (simp add: round_to_def u_def e_def Let_def)
  show ?thesis
  proof (cases "e = int p")
    case True
    with b(1) xp have ax: "\<bar>x\<bar> = 2 ^ p" by simp
    from True have u2: "u = 2" by (simp add: u_def)
    from ax have "(of_int \<bar>n\<bar> :: rat) = of_int (2 ^ p)"
      by (simp add: x_def)
    then have np: "\<bar>n\<bar> = 2 ^ p"
      by (simp only: of_int_eq_iff)
    show ?thesis
    proof (cases p)
      case 0
      with assms(2) show ?thesis by simp
    next
      case (Suc p')
      with np have "\<bar>n\<bar> = 2 * 2 ^ p'" by simp
      then have "even n" by presburger
      then obtain h where h: "n = 2 * h" by (rule evenE)
      then have "x / u = of_int h" by (simp add: u2 x_def)
      then have "round_half_even (x / u) = h" by (simp only: round_half_even_of_int)
      with r h show ?thesis by (simp add: u2 x_def)
    qed
  next
    case False
    with ep have "0 \<le> int p - 1 - e" by simp
    define m where "m = nat (int p - 1 - e)"
    have "u = 2 powi (- int m)"
      using \<open>0 \<le> int p - 1 - e\<close> by (simp add: u_def m_def algebra_simps)
    then have um: "u = 1 / 2 ^ m" by (simp add: power_int_minus field_simps)
    have "x / u = of_int (n * 2 ^ m)" by (simp add: um x_def)
    then have "round_half_even (x / u) = n * 2 ^ m" by (simp only: round_half_even_of_int)
    with r show ?thesis by (simp add: um x_def)
  qed
qed

lemma round_to_grid:
  assumes "\<bar>n\<bar> \<le> 2 ^ p" and "1 \<le> p"
  shows "round_to p (of_int n * 2 powi k) = of_int n * 2 powi k"
  by (simp add: round_to_scale round_to_of_int [OF assms])

section \<open>Properties of AverageMeter\<close>


lemma update_Inr:
  assumes "count m + of_int n \<noteq> 0"
  shows "update m v n =
    Inr (m\<lparr>val := v, sum_m := sum_m m + v * of_int n, count := count m + of_int n,
           avg := (sum_m m + v * of_int n) / (count m + of_int n)\<rparr>)"
  using assms by (simp add: update_def py_div_def Let_def)

lemma updates_closed_form:
  assumes "\<forall>(v, n) \<in> set us. 1 \<le> n" and "0 \<le> count m"
  shows "\<exists>m'. updates m us = Inr m'
     \<and> sum_m m' = sum_m m + (\<Sum>(v, n)\<leftarrow>us. v * of_int n)
     \<and> count m' = count m + of_int (\<Sum>(v, n)\<leftarrow>us. n)
     \<and> (us \<noteq> [] \<longrightarrow> avg m' = sum_m m' / count m' \<and> 0 < count m')"
  using assms
proof (induction us arbitrary: m)
  case Nil
  then show ?case by simp
next
  case (Cons u us)
  obtain v n where u: "u = (v, n)" by (cases u)
  from Cons.prems u have n: "1 \<le> n" by simp
  with Cons.prems have pos: "0 < count m + of_int n"
    by (simp add: add_nonneg_pos)
  define m1 where "m1 = m\<lparr>val := v, sum_m := sum_m m + v * of_int n,
      count := count m + of_int n, avg := (sum_m m + v * of_int n) / (count m + of_int n)\<rparr>"
  have step: "update m v n = Inr m1"
    unfolding m1_def using pos by (intro update_Inr) simp
  have c1: "0 \<le> count m1" using pos by (simp add: m1_def)
  from Cons.prems have rest: "\<forall>(v, n) \<in> set us. 1 \<le> n" by simp
  from Cons.IH [OF rest c1] obtain m' where m':
    "updates m1 us = Inr m'"
    "sum_m m' = sum_m m1 + (\<Sum>(v, n)\<leftarrow>us. v * of_int n)"
    "count m' = count m1 + of_int (\<Sum>(v, n)\<leftarrow>us. n)"
    "us \<noteq> [] \<longrightarrow> avg m' = sum_m m' / count m' \<and> 0 < count m'"
    by blast
  have "updates m (u # us) = Inr m'"
    using step m'(1) u by simp
  moreover have "sum_m m' = sum_m m + (\<Sum>(v, n)\<leftarrow>u # us. v * of_int n)"
    using m'(2) u by (simp add: m1_def)
  moreover have "count m' = count m + of_int (\<Sum>(v, n)\<leftarrow>u # us. n)"
    using m'(3) u by (simp add: m1_def)
  moreover have "avg m' = sum_m m' / count m' \<and> 0 < count m'"
  proof (cases "us = []")
    case True
    with m'(1) have "m' = m1" by simp
    then show ?thesis using pos by (simp add: m1_def)
  next
    case False
    with m'(4) show ?thesis by simp
  qed
  ultimately show ?case by blast
qed




section \<open>Properties of accuracy\<close>

lemma argsort_desc_length: "length (argsort_desc row) = length row"
  by (simp add: argsort_desc_def)

lemma argsort_desc_set: "set (argsort_desc row) = {..<length row}"
  by (auto simp: argsort_desc_def)

lemma argsort_desc_distinct: "distinct (argsort_desc row)"
  by (simp add: argsort_desc_def)

lemma argsort_desc_sorted: "sorted_wrt (\<lambda>i j. row ! j \<le> row ! i) (argsort_desc row)"
proof -
  have "sorted (map (\<lambda>i. row ! i) (sort_key (\<lambda>i. row ! i) (rev [0..<length row])))"
    by (rule sorted_sort_key)
  then have "sorted_wrt (\<lambda>i j. row ! i \<le> row ! j) (sort_key (\<lambda>i. row ! i) (rev [0..<length row]))"
    by (simp only: sorted_map)
  then show ?thesis
    by (simp only: argsort_desc_def sorted_wrt_rev)
qed

text \<open>The stable implementation keeps the promise of \<open>topk\<close>.\<close>

lemma argsort_topk_sorted:
  assumes "k \<le> length row"
  shows "topk_sorted row k (take k (argsort_desc row))"
proof -
  let ?xs = "argsort_desc row"
  have split: "?xs = take k ?xs @ drop k ?xs" by simp
  have len: "length (take k ?xs) = k"
    using assms by (simp add: argsort_desc_length)
  have dist: "distinct (take k ?xs)"
    by (simp add: argsort_desc_distinct)
  have sub: "set (take k ?xs) \<subseteq> {..<length row}"
    using set_take_subset [of k ?xs] by (simp add: argsort_desc_set)
  have whole: "sorted_wrt (\<lambda>i j. row ! j \<le> row ! i) (take k ?xs @ drop k ?xs)"
    using argsort_desc_sorted [of row] by simp
  then have srt: "sorted_wrt (\<lambda>i j. row ! j \<le> row ! i) (take k ?xs)"
    unfolding sorted_wrt_append by blast
  have ord: "row ! j \<le> row ! i"
    if i: "i \<in> set (take k ?xs)" and j: "j < length row" and nj: "j \<notin> set (take k ?xs)" for i j
  proof -
    from j have "j \<in> set ?xs" by (simp add: argsort_desc_set)
    then have "j \<in> set (take k ?xs) \<union> set (drop k ?xs)"
      by (metis split set_append)
    with nj have jd: "j \<in> set (drop k ?xs)" by simp
    from whole have "\<forall>x\<in>set (take k ?xs). \<forall>y\<in>set (drop k ?xs). row ! y \<le> row ! x"
      unfolding sorted_wrt_append by blast
    then show ?thesis using i jd by blast
  qed
  show ?thesis
    unfolding topk_sorted_def using len dist sub srt ord by blast
qed

text \<open>
  The first \<open>k\<close> of the indices that \<open>topk\<close> returns for \<open>maxk\<close> are a choice of the \<open>k\<close>
  highest-scored positions of the row.
\<close>

lemma topk_sorted_k_highest:
  assumes t: "topk_sorted row maxk idx" and k: "k \<le> maxk"
  shows "k_highest row k (set (take k idx))"
proof -
  from t have len: "length idx = maxk" and dist: "distinct idx"
    and sub: "set idx \<subseteq> {..<length row}"
    and srt: "sorted_wrt (\<lambda>i j. row ! j \<le> row ! i) idx"
    and out: "\<forall>i \<in> set idx. \<forall>j < length row. j \<notin> set idx \<longrightarrow> row ! j \<le> row ! i"
    by (simp_all add: topk_sorted_def)
  have split: "idx = take k idx @ drop k idx" by simp
  have s1: "set (take k idx) \<subseteq> {..<length row}"
    using set_take_subset [of k idx] sub by blast
  have s2: "card (set (take k idx)) = k"
    using k len dist by (simp add: distinct_card)
  have whole: "sorted_wrt (\<lambda>i j. row ! j \<le> row ! i) (take k idx @ drop k idx)"
    using srt by simp
  have s3: "row ! j \<le> row ! i"
    if i: "i \<in> set (take k idx)" and j: "j < length row" and nj: "j \<notin> set (take k idx)" for i j
  proof (cases "j \<in> set idx")
    case True
    then have "j \<in> set (take k idx) \<union> set (drop k idx)"
      by (metis split set_append)
    with nj have jd: "j \<in> set (drop k idx)" by simp
    from whole have "\<forall>x\<in>set (take k idx). \<forall>y\<in>set (drop k idx). row ! y \<le> row ! x"
      unfolding sorted_wrt_append by blast
    then show ?thesis using i jd by blast
  next
    case False
    from i have "i \<in> set idx" by (rule in_set_takeD)
    with out j False show ?thesis by blast
  qed
  show ?thesis
    unfolding k_highest_def using s1 s2 s3 by blast
qed

text \<open>Where no two scores of a row are equal there is one such choice.\<close>

lemma k_highest_unique:
  assumes d: "distinct row" and S: "k_highest row k S" and T: "k_highest row k T"
  shows "S = T"
proof (rule ccontr)
  assume ne: "S \<noteq> T"
  from S T have fS: "finite S" and fT: "finite T"
    by (auto simp: k_highest_def intro: finite_subset [of _ "{..<length row}"])
  from S T have c: "card S = card T" by (simp add: k_highest_def)
  have "\<not> S \<subseteq> T"
    using ne fT c card_subset_eq [of T S] by blast
  then obtain i where i: "i \<in> S" "i \<notin> T" by blast
  have "\<not> T \<subseteq> S"
    using ne fS c card_subset_eq [of S T] by auto
  then obtain j where j: "j \<in> T" "j \<notin> S" by blast
  from S i(1) have il: "i < length row" by (auto simp: k_highest_def)
  from T j(1) have jl: "j < length row" by (auto simp: k_highest_def)
  from S i(1) jl j(2) have "row ! j \<le> row ! i" by (simp add: k_highest_def)
  moreover from T j(1) il i(2) have "row ! i \<le> row ! j" by (simp add: k_highest_def)
  ultimately have "row ! i = row ! j" by simp
  with d il jl have "i = j" by (simp add: nth_eq_iff_index_eq)
  with i(1) j(2) show False by simp
qed

lemma length_filter_concat:
  "length (filter P (concat xss)) = (\<Sum>xs\<leftarrow>xss. length (filter P xs))"
  by (induction xss) simp_all

lemma take_Tensor_t: "k \<le> n \<Longrightarrow> take k (Tensor_t n xss) = Tensor_t k xss"
  by (simp add: Tensor_t_def take_map)

lemma correct_row_count:
  assumes "length tgt = length pred0"
  shows "length (filter (\<lambda>b. b) (map (\<lambda>(p, l). p = l) (zip (map (\<lambda>xs. xs ! r) pred0) tgt)))
       = card {i. i < length tgt \<and> pred0 ! i ! r = tgt ! i}"
proof -
  have "length (filter (\<lambda>b. b) (map (\<lambda>(p, l). p = l) (zip (map (\<lambda>xs. xs ! r) pred0) tgt)))
      = card {i. i < length tgt \<and> (map (\<lambda>(p, l). p = l) (zip (map (\<lambda>xs. xs ! r) pred0) tgt)) ! i}"
    using assms by (simp add: length_filter_conv_card)
  also have "{i. i < length tgt \<and> (map (\<lambda>(p, l). p = l) (zip (map (\<lambda>xs. xs ! r) pred0) tgt)) ! i}
      = {i. i < length tgt \<and> pred0 ! i ! r = tgt ! i}"
    using assms by auto
  finally show ?thesis .
qed

lemma correct_k_card:
  assumes len: "length tgt = length pred0"
    and k: "k \<le> maxk"
    and rows: "\<And>i. i < length pred0 \<Longrightarrow> distinct (pred0 ! i) \<and> length (pred0 ! i) = maxk"
  shows "correct_k (map (\<lambda>prow. map (\<lambda>(p, l). p = l) (zip prow tgt)) (Tensor_t maxk pred0)) k
       = card {i. i < length tgt \<and> tgt ! i \<in> set (take k (pred0 ! i))}"
proof -
  let ?A = "\<lambda>r. {i. i < length tgt \<and> pred0 ! i ! r = tgt ! i}"
  have "correct_k (map (\<lambda>prow. map (\<lambda>(p, l). p = l) (zip prow tgt)) (Tensor_t maxk pred0)) k
      = (\<Sum>r\<leftarrow>[0..<k]. length (filter (\<lambda>b. b)
            (map (\<lambda>(p, l). p = l) (zip (map (\<lambda>xs. xs ! r) pred0) tgt))))"
  proof -
    have "take k (map (\<lambda>prow. map (\<lambda>(p, l). p = l) (zip prow tgt)) (Tensor_t maxk pred0))
        = map (\<lambda>prow. map (\<lambda>(p, l). p = l) (zip prow tgt)) (Tensor_t k pred0)"
      using k by (simp only: take_map take_Tensor_t)
    then show ?thesis
      by (simp add: correct_k_def length_filter_concat Tensor_t_def comp_def)
  qed
  also have "\<dots> = (\<Sum>r\<leftarrow>[0..<k]. card (?A r))"
    by (simp only: correct_row_count [OF len])
  also have "\<dots> = (\<Sum>r\<in>{0..<k}. card (?A r))"
    by (simp add: interv_sum_list_conv_sum_set_nat)
  also have "\<dots> = card (\<Union>r\<in>{0..<k}. ?A r)"
  proof (rule card_UN_disjoint [symmetric])
    show "finite {0..<k}" by simp
    show "\<forall>r\<in>{0..<k}. finite (?A r)" by simp
    show "\<forall>r\<in>{0..<k}. \<forall>r'\<in>{0..<k}. r \<noteq> r' \<longrightarrow> ?A r \<inter> ?A r' = {}"
    proof (intro ballI impI)
      fix r r' assume r: "r \<in> {0..<k}" and r': "r' \<in> {0..<k}" and ne: "r \<noteq> r'"
      show "?A r \<inter> ?A r' = {}"
      proof (rule ccontr)
        assume "?A r \<inter> ?A r' \<noteq> {}"
        then obtain i where i: "i < length tgt" "pred0 ! i ! r = tgt ! i" "pred0 ! i ! r' = tgt ! i"
          by blast
        from i(1) len rows have d: "distinct (pred0 ! i)" "length (pred0 ! i) = maxk" by simp_all
        from r r' k d(2) have "r < length (pred0 ! i)" "r' < length (pred0 ! i)" by simp_all
        moreover from i(2,3) have "pred0 ! i ! r = pred0 ! i ! r'" by simp
        ultimately have "r = r'" using d(1) by (simp only: nth_eq_iff_index_eq)
        with ne show False by simp
      qed
    qed
  qed
  also have "(\<Union>r\<in>{0..<k}. ?A r) = {i. i < length tgt \<and> tgt ! i \<in> set (take k (pred0 ! i))}"
  proof (rule set_eqI)
    fix i
    show "i \<in> (\<Union>r\<in>{0..<k}. ?A r) \<longleftrightarrow> i \<in> {i. i < length tgt \<and> tgt ! i \<in> set (take k (pred0 ! i))}"
    proof (cases "i < length tgt")
      case False
      then show ?thesis by simp
    next
      case True
      with len rows have l: "length (pred0 ! i) = maxk" by simp
      have "tgt ! i \<in> set (take k (pred0 ! i)) \<longleftrightarrow> (\<exists>r<k. pred0 ! i ! r = tgt ! i)"
        using k l by (auto simp: in_set_conv_nth)
      with True show ?thesis by auto
    qed
  qed
  finally show ?thesis .
qed

lemma correct_k_mono: "k \<le> k' \<Longrightarrow> correct_k c k \<le> correct_k c k'"
proof -
  assume "k \<le> k'"
  then have "take k' c = take k c @ take (k' - k) (drop k c)"
    using take_add [of k "k' - k" c] by simp
  then show ?thesis by (simp add: correct_k_def)
qed

lemma accuracy_Inr_shape:
  assumes "accuracy output target topk = Inr res"
  shows "target \<noteq> [] \<and> topk \<noteq> [] \<and> Max (set topk) \<le> size1 output \<and>
     (\<exists>correct. res = map (\<lambda>k. Tensor_mul (float32 (of_nat (correct_k correct k)))
                                 (float64 (100 / of_nat (length target)))) topk)"
  using assms
  by (auto simp: accuracy_def Let_def Tensor_topk_def split: if_splits sum.splits)

lemma accuracy_returns:
  assumes "topk \<noteq> []" and "Max (set topk) \<le> size1 output"
    and "length target = length (rows output)" and "target \<noteq> []"
  shows "accuracy output target topk =
     Inr (map (\<lambda>k. Tensor_mul (float32 (of_nat (correct_k
                (map (\<lambda>prow. map (\<lambda>(p, l). p = l) (zip prow target))
                   (Tensor_t (Max (set topk))
                      (map (\<lambda>i. topk_indices output i (Max (set topk)))
                         [0..<length (rows output)]))) k)))
              (float64 (100 / of_nat (length target)))) topk)"
proof -
  from assms(3,4) have "rows output \<noteq> []" by auto
  with assms show ?thesis
    by (simp add: accuracy_def Let_def Tensor_topk_def expand_as_def)
qed

lemma accuracy_entry:
  assumes topk: "topk \<noteq> []"
    and maxk: "Max (set topk) \<le> size1 output"
    and len: "length target = length (rows output)" and ne: "target \<noteq> []"
    and j: "j < length topk"
    and idx: "\<And>i. i < length (rows output) \<Longrightarrow>
        distinct (topk_indices output i (Max (set topk))) \<and>
        length (topk_indices output i (Max (set topk))) = Max (set topk)"
  shows "\<exists>res. accuracy output target topk = Inr res \<and> length res = length topk \<and>
     res ! j = Tensor_mul (float32 (of_nat (card {i. i < length target \<and>
         target ! i \<in> set (take (topk ! j) (topk_indices output i (Max (set topk))))})))
       (float64 (100 / of_nat (length target)))"
proof -
  let ?maxk = "Max (set topk)"
  let ?pred0 = "map (\<lambda>i. topk_indices output i ?maxk) [0..<length (rows output)]"
  have kj: "topk ! j \<le> ?maxk" using j by simp
  have l0: "length target = length ?pred0" using len by simp
  have rows: "distinct (?pred0 ! i) \<and> length (?pred0 ! i) = ?maxk" if "i < length ?pred0" for i
    using that idx [of i] by simp
  have "correct_k (map (\<lambda>prow. map (\<lambda>(p, l). p = l) (zip prow target)) (Tensor_t ?maxk ?pred0)) (topk ! j)
      = card {i. i < length target \<and> target ! i \<in> set (take (topk ! j) (?pred0 ! i))}"
    using l0 kj rows by (rule correct_k_card)
  also have "{i. i < length target \<and> target ! i \<in> set (take (topk ! j) (?pred0 ! i))}
      = {i. i < length target \<and> target ! i \<in> set (take (topk ! j) (topk_indices output i ?maxk))}"
    using len by auto
  finally have c: "correct_k (map (\<lambda>prow. map (\<lambda>(p, l). p = l) (zip prow target)) (Tensor_t ?maxk ?pred0)) (topk ! j)
      = card {i. i < length target \<and> target ! i \<in> set (take (topk ! j) (topk_indices output i ?maxk))}" .
  show ?thesis
    using j by (simp add: accuracy_returns [OF topk maxk len ne] c)
qed

lemma hits_card:
  "hits output target maxk k =
     card {i. i < length target \<and> target ! i \<in> set (take k (topk_indices output i maxk))}"
proof -
  have "hits output target maxk k =
      card {i. i < length [0..<length target] \<and>
               [0..<length target] ! i \<in> {i. target ! i \<in> set (take k (topk_indices output i maxk))}}"
    unfolding hits_def by (simp add: length_filter_conv_card)
  also have "{i. i < length [0..<length target] \<and>
               [0..<length target] ! i \<in> {i. target ! i \<in> set (take k (topk_indices output i maxk))}}
      = {i. i < length target \<and> target ! i \<in> set (take k (topk_indices output i maxk))}"
    by auto
  finally show ?thesis .
qed

text \<open>
  How far a rounded value is from the exact one, relative to it: rounding to \<open>p\<close> bits
  adds a factor of at most \<open>1 + 1 / 2 ^ p\<close>, and the factors of a product multiply.
\<close>

lemma rel_round:
  assumes "\<bar>a - x\<bar> \<le> e * \<bar>x\<bar>"
  shows "\<bar>round_to p a - x\<bar> \<le> ((1 + e) * (1 + 1 / 2 ^ p) - 1) * \<bar>x\<bar>"
proof -
  define u :: rat where "u = 1 / 2 ^ p"
  have u: "0 \<le> u" by (simp add: u_def)
  have "\<bar>a\<bar> \<le> \<bar>a - x\<bar> + \<bar>x\<bar>"
    using abs_triangle_ineq [of "a - x" x] by simp
  with assms have a: "\<bar>a\<bar> \<le> (1 + e) * \<bar>x\<bar>" by (simp add: algebra_simps)
  have "\<bar>round_to p a - a\<bar> \<le> \<bar>a\<bar> * u"
    using round_to_error [of p a] by (simp add: u_def)
  also have "\<dots> \<le> (1 + e) * \<bar>x\<bar> * u"
    using a u by (rule mult_right_mono)
  finally have r: "\<bar>round_to p a - a\<bar> \<le> (1 + e) * \<bar>x\<bar> * u" .
  have "\<bar>round_to p a - x\<bar> \<le> \<bar>round_to p a - a\<bar> + \<bar>a - x\<bar>"
    using abs_triangle_ineq [of "round_to p a - a" "a - x"] by simp
  with r assms have "\<bar>round_to p a - x\<bar> \<le> (1 + e) * \<bar>x\<bar> * u + e * \<bar>x\<bar>" by linarith
  also have "\<dots> = ((1 + e) * (1 + u) - 1) * \<bar>x\<bar>" by (simp add: algebra_simps)
  finally show ?thesis by (simp add: u_def)
qed

lemma rel_mult:
  fixes a b x y e1 e2 :: rat
  assumes a: "\<bar>a - x\<bar> \<le> e1 * \<bar>x\<bar>" and b: "\<bar>b - y\<bar> \<le> e2 * \<bar>y\<bar>" and e1: "0 \<le> e1"
  shows "\<bar>a * b - x * y\<bar> \<le> ((1 + e1) * (1 + e2) - 1) * \<bar>x * y\<bar>"
proof -
  have "\<bar>b\<bar> \<le> \<bar>b - y\<bar> + \<bar>y\<bar>"
    using abs_triangle_ineq [of "b - y" y] by simp
  with b have b': "\<bar>b\<bar> \<le> (1 + e2) * \<bar>y\<bar>" by (simp add: algebra_simps)
  have "a * b - x * y = (a - x) * b + x * (b - y)" by (simp add: algebra_simps)
  then have "\<bar>a * b - x * y\<bar> \<le> \<bar>a - x\<bar> * \<bar>b\<bar> + \<bar>x\<bar> * \<bar>b - y\<bar>"
    using abs_triangle_ineq [of "(a - x) * b" "x * (b - y)"] by (simp add: abs_mult)
  also have "\<bar>a - x\<bar> * \<bar>b\<bar> \<le> (e1 * \<bar>x\<bar>) * \<bar>b\<bar>"
    using a by (rule mult_right_mono) simp
  also have "(e1 * \<bar>x\<bar>) * \<bar>b\<bar> \<le> (e1 * \<bar>x\<bar>) * ((1 + e2) * \<bar>y\<bar>)"
    using b' e1 by (intro mult_left_mono) simp_all
  also have "\<bar>x\<bar> * \<bar>b - y\<bar> \<le> \<bar>x\<bar> * (e2 * \<bar>y\<bar>)"
    using b by (rule mult_left_mono) simp
  finally have "\<bar>a * b - x * y\<bar> \<le> (e1 * \<bar>x\<bar>) * ((1 + e2) * \<bar>y\<bar>) + \<bar>x\<bar> * (e2 * \<bar>y\<bar>)"
    by simp
  also have "\<dots> = ((1 + e1) * (1 + e2) - 1) * \<bar>x * y\<bar>"
    by (simp add: algebra_simps abs_mult)
  finally show ?thesis .
qed

lemma rel_exact: "\<bar>x - x\<bar> \<le> 0 * \<bar>x :: rat\<bar>"
  by simp

lemma Tensor_mul_error:
  fixes c :: rat
  shows "\<bar>Tensor_mul (float32 c) (float64 y) - c * y\<bar>
       \<le> ((1 + 1 / 2 ^ 24) ^ 3 * (1 + 1 / 2 ^ 53) - 1) * \<bar>c * y\<bar>"
proof -
  define u :: rat where "u = 1 / 2 ^ 24"
  define v :: rat where "v = 1 / 2 ^ 53"
  have u: "0 \<le> u" by (simp add: u_def)
  have "\<bar>round_to 53 y - y\<bar> \<le> ((1 + 0) * (1 + 1 / 2 ^ 53) - 1) * \<bar>y\<bar>"
    using rel_exact by (rule rel_round)
  then have y1: "\<bar>float64 y - y\<bar> \<le> v * \<bar>y\<bar>"
    by (simp add: float64_def v_def)
  have "\<bar>round_to 24 (float64 y) - y\<bar> \<le> ((1 + v) * (1 + 1 / 2 ^ 24) - 1) * \<bar>y\<bar>"
    using y1 by (rule rel_round)
  then have y2: "\<bar>float32 (float64 y) - y\<bar> \<le> ((1 + v) * (1 + u) - 1) * \<bar>y\<bar>"
    by (simp only: float32_def u_def)
  have "\<bar>round_to 24 c - c\<bar> \<le> ((1 + 0) * (1 + 1 / 2 ^ 24) - 1) * \<bar>c\<bar>"
    using rel_exact by (rule rel_round)
  then have c1: "\<bar>float32 c - c\<bar> \<le> u * \<bar>c\<bar>"
    by (simp add: float32_def u_def)
  have "\<bar>float32 c * float32 (float64 y) - c * y\<bar>
      \<le> ((1 + u) * (1 + ((1 + v) * (1 + u) - 1)) - 1) * \<bar>c * y\<bar>"
    using c1 y2 u by (rule rel_mult)
  then have "\<bar>round_to 24 (float32 c * float32 (float64 y)) - c * y\<bar>
      \<le> ((1 + ((1 + u) * (1 + ((1 + v) * (1 + u) - 1)) - 1)) * (1 + 1 / 2 ^ 24) - 1) * \<bar>c * y\<bar>"
    by (rule rel_round)
  moreover have "(1 + ((1 + u) * (1 + ((1 + v) * (1 + u) - 1)) - 1)) * (1 + 1 / 2 ^ 24) - 1
      = (1 + u) ^ 3 * (1 + v) - 1"
    unfolding u_def [symmetric] by (simp add: power3_eq_cube algebra_simps)
  ultimately have "\<bar>Tensor_mul (float32 c) (float64 y) - c * y\<bar> \<le> ((1 + u) ^ 3 * (1 + v) - 1) * \<bar>c * y\<bar>"
    by (simp only: Tensor_mul_def float32_def)
  then show ?thesis by (simp only: u_def v_def)
qed

lemma Tensor_mul_mono:
  assumes "c \<le> c'" and "0 \<le> y"
  shows "Tensor_mul (float32 (of_nat c)) y \<le> Tensor_mul (float32 (of_nat c')) y"
proof -
  have p: "(1::nat) \<le> 24" by simp
  from assms(1) have "(of_nat c :: rat) \<le> of_nat c'" by simp
  then have c: "float32 (of_nat c) \<le> float32 (of_nat c')"
    unfolding float32_def by (intro round_to_mono p) simp_all
  have c0: "0 \<le> float32 (of_nat c)"
    unfolding float32_def by (rule round_to_nonneg) simp
  have y: "0 \<le> float32 y"
    unfolding float32_def using assms(2) by (rule round_to_nonneg)
  from c y have "float32 (of_nat c) * float32 y \<le> float32 (of_nat c') * float32 y"
    by (rule mult_right_mono)
  moreover from c0 y have "0 \<le> float32 (of_nat c) * float32 y" by simp
  ultimately show ?thesis
    unfolding Tensor_mul_def float32_def by (intro round_to_mono p)
qed

text \<open>
  C1, as the code has it. Let the tensor of scores have one row per label, at least one
  sample and every \<open>k\<close> of \<open>topk\<close> at most the number of classes, and let \<open>topk\<close> keep
  its promise on every row. Then \<open>accuracy\<close> returns one number per entry of \<open>topk\<close>.
  The number at the position of \<open>k\<close> is computed from \<open>hits\<close>, the number of samples whose
  true label is among the first \<open>k\<close> predictions that \<open>topk\<close> returned for the sample,
  as \<open>hits * (100.0 / batch_size)\<close> in \<open>float32\<close>: it is a percentage, 100 times the
  fraction of those samples, up to the rounding of three \<open>float32\<close> operations and one
  division of floats. The predictions counted for a sample are a choice of the \<open>k\<close>
  highest-scored classes of its row: the only one where no two scores of the row are
  equal, and otherwise the one that \<open>topk\<close> made.
\<close>

theorem accuracy_is_percentage_in_top_k:
  assumes "wf_tensor output" and "length target = length (rows output)" and "target \<noteq> []"
    and "\<forall>k \<in> set topk. k \<le> size1 output" and "j < length topk"
    and "\<forall>i < length (rows output).
           topk_sorted (rows output ! i) (Max (set topk)) (topk_indices output i (Max (set topk)))"
  shows "\<exists>res. accuracy output target topk = Inr res \<and> length res = length topk \<and>
     res ! j = float32 (float32 (of_nat (hits output target (Max (set topk)) (topk ! j)))
                 * float32 (float64 (100 / of_nat (length target)))) \<and>
     \<bar>res ! j - 100 * (of_nat (hits output target (Max (set topk)) (topk ! j))
                        / of_nat (length target))\<bar>
       \<le> ((1 + 1 / 2 ^ 24) ^ 3 * (1 + 1 / 2 ^ 53) - 1)
           * (100 * (of_nat (hits output target (Max (set topk)) (topk ! j))
                        / of_nat (length target))) \<and>
     (\<forall>i < length target.
        k_highest (rows output ! i) (topk ! j)
          (set (take (topk ! j) (topk_indices output i (Max (set topk)))))) \<and>
     (\<forall>i < length target. distinct (rows output ! i) \<longrightarrow>
        (\<forall>S. k_highest (rows output ! i) (topk ! j) S \<longrightarrow>
           S = set (take (topk ! j) (topk_indices output i (Max (set topk))))))"
proof -
  let ?maxk = "Max (set topk)"
  let ?h = "hits output target ?maxk (topk ! j)"
  from assms(5) have topk: "topk \<noteq> []" by auto
  with assms(4) have maxk: "?maxk \<le> size1 output" by simp
  have kj: "topk ! j \<le> ?maxk" using assms(5) by simp
  have idx: "distinct (topk_indices output i ?maxk) \<and> length (topk_indices output i ?maxk) = ?maxk"
    if "i < length (rows output)" for i
    using assms(6) that by (simp add: topk_sorted_def)
  from accuracy_entry [OF topk maxk assms(2,3,5) idx] obtain res where res:
    "accuracy output target topk = Inr res" "length res = length topk"
    "res ! j = Tensor_mul (float32 (of_nat ?h)) (float64 (100 / of_nat (length target)))"
    unfolding hits_card by blast
  have val: "res ! j = float32 (float32 (of_nat ?h) * float32 (float64 (100 / of_nat (length target))))"
    using res(3) by (simp only: Tensor_mul_def)
  have "\<bar>res ! j - of_nat ?h * (100 / of_nat (length target))\<bar>
      \<le> ((1 + 1 / 2 ^ 24) ^ 3 * (1 + 1 / 2 ^ 53) - 1) * \<bar>of_nat ?h * (100 / of_nat (length target))\<bar>"
    unfolding res(3) by (rule Tensor_mul_error)
  moreover have "(of_nat ?h :: rat) * (100 / of_nat (length target))
      = 100 * (of_nat ?h / of_nat (length target))"
    by simp
  moreover have "(0::rat) \<le> 100 * (of_nat ?h / of_nat (length target))" by simp
  ultimately have err: "\<bar>res ! j - 100 * (of_nat ?h / of_nat (length target))\<bar>
      \<le> ((1 + 1 / 2 ^ 24) ^ 3 * (1 + 1 / 2 ^ 53) - 1) * (100 * (of_nat ?h / of_nat (length target)))"
    by (simp only: abs_of_nonneg)
  have high: "k_highest (rows output ! i) (topk ! j)
          (set (take (topk ! j) (topk_indices output i ?maxk)))" if "i < length target" for i
  proof -
    from that assms(2) have "i < length (rows output)" by simp
    with assms(6) have "topk_sorted (rows output ! i) ?maxk (topk_indices output i ?maxk)"
      by blast
    then show ?thesis using kj by (rule topk_sorted_k_highest)
  qed
  have uniq: "S = set (take (topk ! j) (topk_indices output i ?maxk))"
    if "i < length target" and "distinct (rows output ! i)"
      and "k_highest (rows output ! i) (topk ! j) S" for i S
    using that(2,3) high [OF that(1)] by (rule k_highest_unique)
  from res(1,2) val err high uniq show ?thesis by blast
qed

theorem accuracy_is_percentage_in_top_k_witness:
  "\<exists>res. accuracy \<lparr>size1 = 10, rows = [replicate 10 (0::int)],
                    topk_indices = (\<lambda>i k. take k [8, 6, 7, 5, 9, 0, 1, 2, 3, 4])\<rparr> [7] [1, 5]
            = Inr res
       \<and> length res = 2 \<and> res ! 0 = 0 \<and> res ! 1 = 100
       \<and> hits \<lparr>size1 = 10, rows = [replicate 10 (0::int)],
               topk_indices = (\<lambda>i k. take k [8, 6, 7, 5, 9, 0, 1, 2, 3, 4])\<rparr> [7] 5 5 = 1
       \<and> k_highest (replicate 10 (0::int)) 5 {8, 6, 7, 5, 9}"
proof -
  define out where "out = \<lparr>size1 = 10, rows = [replicate 10 (0::int)],
      topk_indices = (\<lambda>i k. take k [8, 6, 7, 5, 9, 0, 1, 2, 3, 4])\<rparr>"
  define tk :: "nat list" where "tk = [1, 5]"
  have m: "Max (set tk) = 5" and t0: "tk ! 0 = 1" and t1: "tk ! 1 = 5" and tl: "length tk = 2"
    by (simp_all add: tk_def)
  have h1: "hits out [7] 5 1 = 0" and h5: "hits out [7] 5 5 = 1"
    by (simp_all add: hits_def out_def)
  have v0: "float32 (float32 (of_nat 0) * float32 (float64 (100 / of_nat (length [7::nat])))) = 0"
    and v1: "float32 (float32 (of_nat 1) * float32 (float64 (100 / of_nat (length [7::nat])))) = 100"
    by code_simp+
  have a1: "wf_tensor out" by (simp add: wf_tensor_def out_def)
  have a2: "length [7::nat] = length (rows out)" by (simp add: out_def)
  have a3: "[7::nat] \<noteq> []" by simp
  have a4: "\<forall>k \<in> set tk. k \<le> size1 out" by (simp add: out_def tk_def)
  have a6: "\<forall>i < length (rows out).
      topk_sorted (rows out ! i) (Max (set tk)) (topk_indices out i (Max (set tk)))"
    unfolding m by (simp add: topk_sorted_def out_def)
  have j0: "0 < length tk" and j1: "1 < length tk" by (simp_all add: tk_def)
  from accuracy_is_percentage_in_top_k [OF a1 a2 a3 a4 j1 a6] obtain res where res:
    "accuracy out [7] tk = Inr res" "length res = length tk"
    "res ! 1 = float32 (float32 (of_nat (hits out [7] (Max (set tk)) (tk ! 1)))
                 * float32 (float64 (100 / of_nat (length [7::nat]))))"
    "\<forall>i < length [7::nat]. k_highest (rows out ! i) (tk ! 1)
          (set (take (tk ! 1) (topk_indices out i (Max (set tk)))))"
    by blast
  from accuracy_is_percentage_in_top_k [OF a1 a2 a3 a4 j0 a6] res(1) have r0:
    "res ! 0 = float32 (float32 (of_nat (hits out [7] (Max (set tk)) (tk ! 0)))
                 * float32 (float64 (100 / of_nat (length [7::nat]))))"
    by auto
  have "res ! 0 = 0" using r0 unfolding m t0 h1 v0 .
  moreover have "res ! 1 = 100" using res(3) unfolding m t1 h5 v1 .
  moreover from res(4) have "k_highest (rows out ! 0) 5 (set (take 5 (topk_indices out 0 5)))"
    unfolding m t1 by simp
  then have "k_highest (replicate 10 (0::int)) 5 {8, 6, 7, 5, 9}"
    by (simp add: out_def)
  ultimately show ?thesis
    using res(1,2) h5 unfolding tl out_def tk_def by (intro exI [of _ res]) simp
qed

text \<open>
  C1 as the specification states it, that the number returned is the fraction itself,
  fails on a batch of one sample whose label has the highest score: the fraction is 1
  and \<open>accuracy\<close> returns 100.
\<close>

theorem accuracy_is_fraction_counterexample:
  "\<not> (\<exists>res. accuracy (stable_tensor 2 [[1::int, 9]]) [1] [1] = Inr res
         \<and> res ! 0 = of_nat (hits (stable_tensor 2 [[1::int, 9]]) [1] 1 1) / of_nat (length [1::nat]))"
proof -
  have "accuracy (stable_tensor 2 [[1::int, 9]]) [1] [1] = Inr [100]"
    by code_simp
  moreover have "hits (stable_tensor 2 [[1::int, 9]]) [1] 1 1 = 1"
    by code_simp
  ultimately show ?thesis by simp
qed

text \<open>
  C8. Whenever \<open>accuracy\<close> returns, the number at the position of \<open>k\<close> is at most the
  number at the position of \<open>k'\<close> for \<open>k \<le> k'\<close>; and it does return when there is one row
  per label, at least one sample, and every entry of \<open>topk\<close> is at most the number of
  classes. With \<open>topk = (1, 5)\<close> this is Acc@1 \<open>\<le>\<close> Acc@5. The rounding to \<open>float32\<close>
  keeps the order, and so does every choice that \<open>topk\<close> makes among equal scores.
\<close>

theorem accuracy_monotone_in_k:
  assumes "j < length topk" and "j' < length topk" and "topk ! j \<le> topk ! j'"
  shows "(\<forall>res. accuracy output target topk = Inr res \<longrightarrow> res ! j \<le> res ! j') \<and>
     (length target = length (rows output) \<and> target \<noteq> [] \<and> (\<forall>k \<in> set topk. k \<le> size1 output)
        \<longrightarrow> (\<exists>res. accuracy output target topk = Inr res))"
proof (intro conjI allI impI)
  fix res assume "accuracy output target topk = Inr res"
  from accuracy_Inr_shape [OF this] obtain correct where
    ne: "target \<noteq> []" and
    res: "res = map (\<lambda>k. Tensor_mul (float32 (of_nat (correct_k correct k)))
                          (float64 (100 / of_nat (length target)))) topk"
    by blast
  have "correct_k correct (topk ! j) \<le> correct_k correct (topk ! j')"
    using assms(3) by (rule correct_k_mono)
  moreover have "0 \<le> float64 (100 / of_nat (length target))"
    unfolding float64_def by (rule round_to_nonneg) simp
  ultimately have "Tensor_mul (float32 (of_nat (correct_k correct (topk ! j))))
        (float64 (100 / of_nat (length target)))
      \<le> Tensor_mul (float32 (of_nat (correct_k correct (topk ! j'))))
        (float64 (100 / of_nat (length target)))"
    by (rule Tensor_mul_mono)
  moreover have "res ! j = Tensor_mul (float32 (of_nat (correct_k correct (topk ! j))))
        (float64 (100 / of_nat (length target)))"
    and "res ! j' = Tensor_mul (float32 (of_nat (correct_k correct (topk ! j'))))
        (float64 (100 / of_nat (length target)))"
    using assms(1,2) res by simp_all
  ultimately show "res ! j \<le> res ! j'" by simp
next
  assume h: "length target = length (rows output) \<and> target \<noteq> [] \<and> (\<forall>k \<in> set topk. k \<le> size1 output)"
  from assms(1) have topk: "topk \<noteq> []" by auto
  with h have "Max (set topk) \<le> size1 output" by simp
  with accuracy_returns [OF topk this] h show "\<exists>res. accuracy output target topk = Inr res"
    by blast
qed

theorem accuracy_monotone_in_k_witness:
  "\<exists>res. accuracy (stable_tensor 5 [[1::int, 2, 3, 4, 5], [5, 4, 3, 2, 1]]) [4, 1] [1, 5] = Inr res
       \<and> res ! 0 \<le> res ! 1"
proof -
  let ?out = "stable_tensor 5 [[1::int, 2, 3, 4, 5], [5, 4, 3, 2, 1]]"
  have "(0::nat) < length [1::nat, 5]" and "(1::nat) < length [1::nat, 5]"
    and "[1::nat, 5] ! 0 \<le> [1::nat, 5] ! 1"
    by simp_all
  from accuracy_monotone_in_k [OF this, of ?out "[4, 1]"]
  have mono: "\<forall>res. accuracy ?out [4, 1] [1, 5] = Inr res \<longrightarrow> res ! 0 \<le> res ! 1"
    and ret: "length [4::nat, 1] = length (rows ?out) \<and> [4::nat, 1] \<noteq> [] \<and>
        (\<forall>k \<in> set [1::nat, 5]. k \<le> size1 ?out) \<longrightarrow> (\<exists>res. accuracy ?out [4, 1] [1, 5] = Inr res)"
    by blast+
  have "length [4::nat, 1] = length (rows ?out) \<and> [4::nat, 1] \<noteq> [] \<and>
        (\<forall>k \<in> set [1::nat, 5]. k \<le> size1 ?out)"
    by (simp add: stable_tensor_def)
  with ret obtain res where "accuracy ?out [4, 1] [1, 5] = Inr res" by blast
  with mono show ?thesis by blast
qed

section \<open>Properties of all_reduce\<close>

lemma float32_error: "\<bar>float32 x - x\<bar> \<le> 1 / 2 ^ 24 * \<bar>x\<bar>"
  using round_to_error [of 24 x] by (simp add: float32_def)

lemma float32_nonneg: "0 \<le> x \<Longrightarrow> 0 \<le> float32 x"
  unfolding float32_def by (rule round_to_nonneg)

lemma float32_eq_0_iff:
  assumes "0 \<le> x"
  shows "float32 x = 0 \<longleftrightarrow> x = 0"
proof
  assume z: "float32 x = 0"
  show "x = 0"
  proof (rule ccontr)
    assume "x \<noteq> 0"
    with assms have "0 < x" by simp
    from round_to_between [OF this, of 24] have "2 powi exponent x \<le> float32 x"
      by (simp add: float32_def)
    moreover have "(0::rat) < 2 powi exponent x" by (rule zero_less_power_int) simp
    ultimately show False using z by simp
  qed
next
  assume "x = 0"
  then show "float32 x = 0" by (simp add: float32_def round_to_0)
qed

lemma float32_grid:
  assumes "n \<le> 2 ^ 24"
  shows "float32 (of_nat n * 2 powi j) = of_nat n * 2 powi j"
proof -
  from assms have "int n \<le> 2 ^ 24"
    by (metis of_nat_le_iff of_nat_numeral of_nat_power)
  then have "\<bar>int n\<bar> \<le> 2 ^ 24" by simp
  from round_to_grid [OF this, of j] show ?thesis
    by (simp add: float32_def)
qed

lemma sum_ranks_le:
  fixes ns :: "nat list"
  assumes "distinct rs" and "set rs \<subseteq> {..<length ns}"
  shows "(\<Sum>r\<leftarrow>rs. ns ! r) \<le> sum_list ns"
proof -
  have "(\<Sum>r\<leftarrow>rs. ns ! r) = (\<Sum>r\<in>set rs. ns ! r)"
    using assms(1) by (rule sum_list_distinct_conv_sum_set)
  also have "\<dots> \<le> (\<Sum>r\<in>{..<length ns}. ns ! r)"
    using assms(2) by (intro sum_mono2) simp_all
  also have "\<dots> = sum_list ns"
    by (simp add: sum_list_sum_nth atLeast0LessThan)
  finally show ?thesis .
qed

lemma sum_ranks_all:
  fixes xs :: "rat list"
  assumes "distinct rs" and "set rs = set [0..<length xs]"
  shows "(\<Sum>r\<leftarrow>rs. xs ! r) = sum_list xs"
proof -
  have "(\<Sum>r\<leftarrow>rs. xs ! r) = (\<Sum>r\<in>set rs. xs ! r)"
    using assms(1) by (rule sum_list_distinct_conv_sum_set)
  also have "\<dots> = (\<Sum>r\<in>{0..<length xs}. xs ! r)"
    using assms(2) by simp
  also have "\<dots> = sum_list xs"
    by (simp add: sum_list_sum_nth)
  finally show ?thesis .
qed

lemma sum_list_of_nat_scaled:
  "(\<Sum>r\<leftarrow>rs. (of_nat (f r) :: rat) * c) = of_nat (\<Sum>r\<leftarrow>rs. f r) * c"
  by (induction rs) (simp_all add: algebra_simps)

lemma reduce_SUM_nonneg:
  assumes "\<forall>r \<in> set (ranks pl). 0 \<le> xs ! r"
  shows "0 \<le> reduce_SUM pl xs"
  using assms by (induction pl) (simp_all add: float32_nonneg)

lemma reduce_SUM_zero:
  assumes "\<forall>r \<in> set (ranks pl). 0 \<le> xs ! r"
  shows "reduce_SUM pl xs = 0 \<longleftrightarrow> (\<forall>r \<in> set (ranks pl). xs ! r = 0)"
  using assms
proof (induction pl)
  case (Rank r)
  show ?case by simp
next
  case (Plus p q)
  from Plus.prems have np: "\<forall>r \<in> set (ranks p). 0 \<le> xs ! r"
    and nq: "\<forall>r \<in> set (ranks q). 0 \<le> xs ! r" by simp_all
  from reduce_SUM_nonneg [OF np] reduce_SUM_nonneg [OF nq]
  have a: "0 \<le> reduce_SUM p xs" and b: "0 \<le> reduce_SUM q xs" .
  then have "float32 (reduce_SUM p xs + reduce_SUM q xs) = 0
      \<longleftrightarrow> reduce_SUM p xs + reduce_SUM q xs = 0"
    by (intro float32_eq_0_iff) simp
  also have "\<dots> \<longleftrightarrow> reduce_SUM p xs = 0 \<and> reduce_SUM q xs = 0"
    using a b by (simp add: add_nonneg_eq_0_iff)
  finally show ?case
    using Plus.IH(1) [OF np] Plus.IH(2) [OF nq] by auto
qed

lemma reduce_SUM_error:
  assumes "\<forall>r \<in> set (ranks pl). r < length ys \<and> 0 \<le> ys ! r"
  shows "\<bar>reduce_SUM pl (map float32 ys) - (\<Sum>r\<leftarrow>ranks pl. ys ! r)\<bar>
       \<le> ((1 + 1 / 2 ^ 24) ^ Suc (depth pl) - 1) * (\<Sum>r\<leftarrow>ranks pl. ys ! r)"
  using assms
proof (induction pl)
  case (Rank r)
  then have "r < length ys" and "0 \<le> ys ! r" by simp_all
  with float32_error [of "ys ! r"] show ?case by simp
next
  case (Plus p q)
  define u :: rat where "u = 1 / 2 ^ 24"
  define d where "d = max (depth p) (depth q)"
  define a where "a = reduce_SUM p (map float32 ys)"
  define b where "b = reduce_SUM q (map float32 ys)"
  define A where "A = (\<Sum>r\<leftarrow>ranks p. ys ! r)"
  define B where "B = (\<Sum>r\<leftarrow>ranks q. ys ! r)"
  have u: "1 \<le> 1 + u" by (simp add: u_def)
  from Plus.prems have np: "\<forall>r \<in> set (ranks p). r < length ys \<and> 0 \<le> ys ! r"
    and nq: "\<forall>r \<in> set (ranks q). r < length ys \<and> 0 \<le> ys ! r" by simp_all
  have A: "0 \<le> A" unfolding A_def using np by (intro sum_list_nonneg) auto
  have B: "0 \<le> B" unfolding B_def using nq by (intro sum_list_nonneg) auto
  have mono: "(1 + u) ^ Suc n - 1 \<le> (1 + u) ^ Suc d - 1" if "n \<le> d" for n
    using that u by (simp add: power_increasing del: power_Suc)
  have "\<bar>a - A\<bar> \<le> ((1 + u) ^ Suc (depth p) - 1) * A"
    using Plus.IH(1) [OF np] by (simp only: a_def A_def u_def)
  also have "\<dots> \<le> ((1 + u) ^ Suc d - 1) * A"
    using A by (intro mult_right_mono mono) (simp_all add: d_def)
  finally have ea: "\<bar>a - A\<bar> \<le> ((1 + u) ^ Suc d - 1) * A" .
  have "\<bar>b - B\<bar> \<le> ((1 + u) ^ Suc (depth q) - 1) * B"
    using Plus.IH(2) [OF nq] by (simp only: b_def B_def u_def)
  also have "\<dots> \<le> ((1 + u) ^ Suc d - 1) * B"
    using B by (intro mult_right_mono mono) (simp_all add: d_def)
  finally have eb: "\<bar>b - B\<bar> \<le> ((1 + u) ^ Suc d - 1) * B" .
  have "\<bar>(a + b) - (A + B)\<bar> \<le> \<bar>a - A\<bar> + \<bar>b - B\<bar>"
    using abs_triangle_ineq [of "a - A" "b - B"] by (simp add: algebra_simps)
  with ea eb have "\<bar>(a + b) - (A + B)\<bar> \<le> ((1 + u) ^ Suc d - 1) * (A + B)"
    by (simp add: algebra_simps)
  with A B have "\<bar>(a + b) - (A + B)\<bar> \<le> ((1 + u) ^ Suc d - 1) * \<bar>A + B\<bar>"
    by simp
  then have "\<bar>round_to 24 (a + b) - (A + B)\<bar>
      \<le> ((1 + ((1 + u) ^ Suc d - 1)) * (1 + 1 / 2 ^ 24) - 1) * \<bar>A + B\<bar>"
    by (rule rel_round)
  moreover have "(1 + ((1 + u) ^ Suc d - 1)) * (1 + 1 / 2 ^ 24) - 1 = (1 + u) ^ Suc (Suc d) - 1"
    by (simp add: u_def)
  ultimately have "\<bar>float32 (a + b) - (A + B)\<bar> \<le> ((1 + u) ^ Suc (Suc d) - 1) * (A + B)"
    using A B by (simp add: float32_def del: power_Suc)
  then show ?case
    by (simp add: a_def b_def A_def B_def u_def d_def del: power_Suc)
qed

lemma reduce_SUM_exact:
  assumes "distinct (ranks pl)" and "set (ranks pl) \<subseteq> {..<length ns}"
    and "sum_list ns \<le> 2 ^ 24"
  shows "reduce_SUM pl (map (\<lambda>n. of_nat n * 2 powi j) ns)
       = of_nat (\<Sum>r\<leftarrow>ranks pl. ns ! r) * 2 powi j"
  using assms(1,2)
proof (induction pl)
  case (Rank r)
  then show ?case by simp
next
  case (Plus p q)
  from Plus.prems have dp: "distinct (ranks p)" and dq: "distinct (ranks q)"
    and sp: "set (ranks p) \<subseteq> {..<length ns}" and sq: "set (ranks q) \<subseteq> {..<length ns}"
    by simp_all
  have "(\<Sum>r\<leftarrow>ranks (Plus p q). ns ! r) \<le> sum_list ns"
    using Plus.prems by (rule sum_ranks_le)
  with assms(3) have le: "(\<Sum>r\<leftarrow>ranks p. ns ! r) + (\<Sum>r\<leftarrow>ranks q. ns ! r) \<le> 2 ^ 24"
    by simp
  have "reduce_SUM (Plus p q) (map (\<lambda>n. of_nat n * 2 powi j) ns)
      = float32 (of_nat (\<Sum>r\<leftarrow>ranks p. ns ! r) * 2 powi j + of_nat (\<Sum>r\<leftarrow>ranks q. ns ! r) * 2 powi j)"
    by (simp add: Plus.IH(1) [OF dp sp] Plus.IH(2) [OF dq sq])
  also have "\<dots> = float32 (of_nat ((\<Sum>r\<leftarrow>ranks p. ns ! r) + (\<Sum>r\<leftarrow>ranks q. ns ! r)) * 2 powi j)"
    by (simp add: algebra_simps)
  also have "\<dots> = of_nat ((\<Sum>r\<leftarrow>ranks p. ns ! r) + (\<Sum>r\<leftarrow>ranks q. ns ! r)) * 2 powi j"
    using le by (rule float32_grid)
  finally show ?case by simp
qed

lemma map_float32_grid:
  assumes "sum_list ns \<le> 2 ^ 24"
  shows "map float32 (map (\<lambda>n. of_nat n * 2 powi j) ns) = map (\<lambda>n. of_nat n * 2 powi j) ns"
proof -
  have "float32 (of_nat n * 2 powi j) = of_nat n * 2 powi j" if "n \<in> set ns" for n
  proof -
    from that have "n \<le> sum_list ns" by (simp add: member_le_sum_list)
    with assms have "n \<le> 2 ^ 24" by simp
    then show ?thesis by (rule float32_grid)
  qed
  then show ?thesis by simp
qed

text \<open>What \<open>all_reduce\<close> computes, with the two reduced numbers named.\<close>

lemma all_reduce_unfold:
  "all_reduce m others pl =
     (if reduce_SUM pl (map float32 (count m # map snd others)) = 0 then Inl ZeroDivisionError
      else Inr (m\<lparr>sum_m := reduce_SUM pl (map float32 (sum_m m # map fst others)),
                 count := reduce_SUM pl (map float32 (count m # map snd others)),
                 avg := float64 (reduce_SUM pl (map float32 (sum_m m # map fst others))
                          / reduce_SUM pl (map float32 (count m # map snd others)))\<rparr>))"
  by (simp add: all_reduce_def dist_all_reduce_SUM_def torch_tensor_float32_def py_div_def
      Let_def comp_def)

text \<open>
  C3, as the code has it. The process runs \<open>all_reduce\<close> on its meter, the other
  processes contribute theirs, no process holds a negative sum or count, and the plan
  of the backend adds every contribution once. Then \<open>all_reduce\<close> raises
  \<open>ZeroDivisionError\<close> when the counts of all processes add up to zero. Otherwise it
  stores a sum \<open>s\<close> and a count \<open>c\<close> and sets \<open>avg\<close> to the float nearest to \<open>s / c\<close>;
  \<open>s\<close> and \<open>c\<close> are the sum of all sums and the sum of all counts up to the rounding of
  the \<open>float32\<close> tensor, one rounding for the narrowing and one for each addition on the
  longest path of the plan. The sum is exact when the local sums are multiples of one
  power of two by natural numbers that add up to at most \<open>2 ^ 24\<close>, and the count is
  exact when the local counts are natural numbers that add up to at most \<open>2 ^ 24\<close>.
\<close>

theorem all_reduce_global_sum_count_avg:
  assumes "plan_for (Suc (length others)) pl"
    and "\<forall>x \<in> set ((sum_m m, count m) # others). 0 \<le> fst x \<and> 0 \<le> snd x"
  shows
   "(count m + sum_list (map snd others) = 0 \<longrightarrow>
       all_reduce m others pl = Inl ZeroDivisionError) \<and>
    (count m + sum_list (map snd others) \<noteq> 0 \<longrightarrow>
       (\<exists>s c. all_reduce m others pl = Inr (m\<lparr>sum_m := s, count := c, avg := float64 (s / c)\<rparr>) \<and>
          \<bar>s - (sum_m m + sum_list (map fst others))\<bar>
            \<le> ((1 + 1 / 2 ^ 24) ^ Suc (depth pl) - 1) * (sum_m m + sum_list (map fst others)) \<and>
          \<bar>c - (count m + sum_list (map snd others))\<bar>
            \<le> ((1 + 1 / 2 ^ 24) ^ Suc (depth pl) - 1) * (count m + sum_list (map snd others)) \<and>
          (sum_m m # map fst others = map (\<lambda>n. of_nat n * 2 powi j) ss \<and> sum_list ss \<le> 2 ^ 24
             \<longrightarrow> s = sum_m m + sum_list (map fst others)) \<and>
          (count m # map snd others = map of_nat cs \<and> sum_list cs \<le> 2 ^ 24
             \<longrightarrow> c = count m + sum_list (map snd others))))"
proof -
  define xs where "xs = sum_m m # map fst others"
  define ys where "ys = count m # map snd others"
  define s where "s = reduce_SUM pl (map float32 xs)"
  define c where "c = reduce_SUM pl (map float32 ys)"
  have lx: "length xs = Suc (length others)" and ly: "length ys = Suc (length others)"
    by (simp_all add: xs_def ys_def)
  from assms(1) have dist: "distinct (ranks pl)"
    and rk: "set (ranks pl) = set [0..<Suc (length others)]"
    by (simp_all add: plan_for_def)
  have X: "(\<Sum>r\<leftarrow>ranks pl. xs ! r) = sum_m m + sum_list (map fst others)"
    using sum_ranks_all [of "ranks pl" xs] dist rk by (simp add: lx) (simp add: xs_def)
  have Y: "(\<Sum>r\<leftarrow>ranks pl. ys ! r) = count m + sum_list (map snd others)"
    using sum_ranks_all [of "ranks pl" ys] dist rk by (simp add: ly) (simp add: ys_def)
  have nx: "\<forall>r \<in> set (ranks pl). r < length xs \<and> 0 \<le> xs ! r"
  proof
    fix r assume "r \<in> set (ranks pl)"
    with rk have r: "r < length xs" by (auto simp: lx)
    then have "xs ! r \<in> set xs" by simp
    with assms(2) have "0 \<le> xs ! r" by (auto simp: xs_def)
    with r show "r < length xs \<and> 0 \<le> xs ! r" by simp
  qed
  have ny: "\<forall>r \<in> set (ranks pl). r < length ys \<and> 0 \<le> ys ! r"
  proof
    fix r assume "r \<in> set (ranks pl)"
    with rk have r: "r < length ys" by (auto simp: ly)
    then have "ys ! r \<in> set ys" by simp
    with assms(2) have "0 \<le> ys ! r" by (auto simp: ys_def)
    with r show "r < length ys \<and> 0 \<le> ys ! r" by simp
  qed
  have un: "all_reduce m others pl =
      (if c = 0 then Inl ZeroDivisionError
       else Inr (m\<lparr>sum_m := s, count := c, avg := float64 (s / c)\<rparr>))"
    unfolding s_def c_def xs_def ys_def by (rule all_reduce_unfold)
  have es: "\<bar>s - (sum_m m + sum_list (map fst others))\<bar>
      \<le> ((1 + 1 / 2 ^ 24) ^ Suc (depth pl) - 1) * (sum_m m + sum_list (map fst others))"
    using reduce_SUM_error [OF nx] unfolding X s_def .
  have ec: "\<bar>c - (count m + sum_list (map snd others))\<bar>
      \<le> ((1 + 1 / 2 ^ 24) ^ Suc (depth pl) - 1) * (count m + sum_list (map snd others))"
    using reduce_SUM_error [OF ny] unfolding Y c_def .
  have zero: "c = 0 \<longleftrightarrow> count m + sum_list (map snd others) = 0"
  proof
    assume "c = 0"
    with ec show "count m + sum_list (map snd others) = 0"
    proof -
      have nn: "\<forall>r \<in> set (ranks pl). 0 \<le> map float32 ys ! r"
        using ny by (simp add: float32_nonneg)
      from \<open>c = 0\<close> reduce_SUM_zero [OF nn] have "\<forall>r \<in> set (ranks pl). map float32 ys ! r = 0"
        by (simp add: c_def)
      with ny have "\<forall>r \<in> set (ranks pl). ys ! r = 0"
        by (auto simp: float32_eq_0_iff)
      then have "(\<Sum>r\<leftarrow>ranks pl. ys ! r) = (\<Sum>r\<leftarrow>ranks pl. 0)"
        by (intro arg_cong [where f = sum_list] map_cong) simp_all
      then have "(\<Sum>r\<leftarrow>ranks pl. ys ! r) = 0"
        by simp
      with Y show ?thesis by simp
    qed
  next
    assume "count m + sum_list (map snd others) = 0"
    with ec show "c = 0" by simp
  qed
  have exs: "s = sum_m m + sum_list (map fst others)"
    if "sum_m m # map fst others = map (\<lambda>n. of_nat n * 2 powi j) ss \<and> sum_list ss \<le> 2 ^ 24"
  proof -
    from that have g: "xs = map (\<lambda>n. of_nat n * 2 powi j) ss" and b: "sum_list ss \<le> 2 ^ 24"
      by (simp_all add: xs_def)
    from g have l: "length ss = Suc (length others)"
      using lx by (metis length_map)
    have sub: "set (ranks pl) \<subseteq> {..<length ss}" using rk l by auto
    have "s = reduce_SUM pl (map (\<lambda>n. of_nat n * 2 powi j) ss)"
      unfolding s_def g by (simp only: map_float32_grid [OF b])
    also have "\<dots> = of_nat (\<Sum>r\<leftarrow>ranks pl. ss ! r) * 2 powi j"
      using dist sub b by (rule reduce_SUM_exact)
    also have "\<dots> = (\<Sum>r\<leftarrow>ranks pl. xs ! r)"
    proof -
      have "xs ! r = of_nat (ss ! r) * 2 powi j" if "r \<in> set (ranks pl)" for r
        using that sub g by auto
      then have "(\<Sum>r\<leftarrow>ranks pl. xs ! r) = (\<Sum>r\<leftarrow>ranks pl. of_nat (ss ! r) * 2 powi j)"
        by (intro arg_cong [where f = sum_list] map_cong) simp_all
      also have "\<dots> = of_nat (\<Sum>r\<leftarrow>ranks pl. ss ! r) * 2 powi j"
        by (rule sum_list_of_nat_scaled)
      finally show ?thesis by simp
    qed
    finally show ?thesis by (simp only: X)
  qed
  have exc: "c = count m + sum_list (map snd others)"
    if "count m # map snd others = map of_nat cs \<and> sum_list cs \<le> 2 ^ 24"
  proof -
    from that have g: "ys = map (\<lambda>n. of_nat n * 2 powi 0) cs" and b: "sum_list cs \<le> 2 ^ 24"
      by (simp_all add: ys_def)
    from g have l: "length cs = Suc (length others)"
      using ly by (metis length_map)
    have sub: "set (ranks pl) \<subseteq> {..<length cs}" using rk l by auto
    have "c = reduce_SUM pl (map (\<lambda>n. of_nat n * 2 powi 0) cs)"
      unfolding c_def g by (simp only: map_float32_grid [OF b])
    also have "\<dots> = of_nat (\<Sum>r\<leftarrow>ranks pl. cs ! r) * 2 powi 0"
      using dist sub b by (rule reduce_SUM_exact)
    also have "\<dots> = (\<Sum>r\<leftarrow>ranks pl. ys ! r)"
    proof -
      have "ys ! r = of_nat (cs ! r)" if "r \<in> set (ranks pl)" for r
        using that sub g by auto
      then have "(\<Sum>r\<leftarrow>ranks pl. ys ! r) = (\<Sum>r\<leftarrow>ranks pl. of_nat (cs ! r))"
        by (intro arg_cong [where f = sum_list] map_cong) simp_all
      also have "\<dots> = of_nat (\<Sum>r\<leftarrow>ranks pl. cs ! r)"
        using sum_list_of_nat_scaled [of "\<lambda>r. cs ! r" 1 "ranks pl"] by simp
      finally show ?thesis by simp
    qed
    finally show ?thesis by (simp only: Y)
  qed
  show ?thesis
  proof (intro conjI impI)
    assume "count m + sum_list (map snd others) = 0"
    with zero un show "all_reduce m others pl = Inl ZeroDivisionError" by simp
  next
    assume "count m + sum_list (map snd others) \<noteq> 0"
    with zero un have "all_reduce m others pl = Inr (m\<lparr>sum_m := s, count := c, avg := float64 (s / c)\<rparr>)"
      by simp
    with es ec exs exc
    show "\<exists>s c. all_reduce m others pl = Inr (m\<lparr>sum_m := s, count := c, avg := float64 (s / c)\<rparr>) \<and>
          \<bar>s - (sum_m m + sum_list (map fst others))\<bar>
            \<le> ((1 + 1 / 2 ^ 24) ^ Suc (depth pl) - 1) * (sum_m m + sum_list (map fst others)) \<and>
          \<bar>c - (count m + sum_list (map snd others))\<bar>
            \<le> ((1 + 1 / 2 ^ 24) ^ Suc (depth pl) - 1) * (count m + sum_list (map snd others)) \<and>
          (sum_m m # map fst others = map (\<lambda>n. of_nat n * 2 powi j) ss \<and> sum_list ss \<le> 2 ^ 24
             \<longrightarrow> s = sum_m m + sum_list (map fst others)) \<and>
          (count m # map snd others = map of_nat cs \<and> sum_list cs \<le> 2 ^ 24
             \<longrightarrow> c = count m + sum_list (map snd others))"
      by blast
  qed
qed

theorem all_reduce_global_sum_count_avg_witness:
  "\<exists>a b. updates (AverageMeter_init ''Acc@1'' '':6.2f'' AVERAGE) [(50, 2)] = Inr a
      \<and> updates (AverageMeter_init ''Acc@1'' '':6.2f'' AVERAGE) [(100, 6)] = Inr b
      \<and> all_reduce a [(sum_m b, count b)] (Plus (Rank 0) (Rank 1))
          = Inr (a\<lparr>sum_m := 700, count := 8, avg := 175 / 2\<rparr>)"
proof -
  define a where "a = \<lparr>name = ''Acc@1'', fmt = '':6.2f'', summary_type = AVERAGE,
      val = 50, avg = 50, sum_m = 100, count = 2\<rparr>"
  define b where "b = \<lparr>name = ''Acc@1'', fmt = '':6.2f'', summary_type = AVERAGE,
      val = 100, avg = 100, sum_m = 600, count = 6\<rparr>"
  have ua: "updates (AverageMeter_init ''Acc@1'' '':6.2f'' AVERAGE) [(50, 2)] = Inr a"
    by (simp add: a_def AverageMeter_init_def reset_def update_def py_div_def)
  have ub: "updates (AverageMeter_init ''Acc@1'' '':6.2f'' AVERAGE) [(100, 6)] = Inr b"
    by (simp add: b_def AverageMeter_init_def reset_def update_def py_div_def)
  have p: "plan_for (Suc (length [(sum_m b, count b)])) (Plus (Rank 0) (Rank 1))"
    by (simp add: plan_for_def)
  have n: "\<forall>x \<in> set ((sum_m a, count a) # [(sum_m b, count b)]). 0 \<le> fst x \<and> 0 \<le> snd x"
    by (simp add: a_def b_def)
  have c: "count a + sum_list (map snd [(sum_m b, count b)]) \<noteq> 0"
    by (simp add: a_def b_def)
  have gs: "sum_m a # map fst [(sum_m b, count b)] = map (\<lambda>n. of_nat n * 2 powi 0) [100, 600]
      \<and> sum_list [100::nat, 600] \<le> 2 ^ 24"
    by (simp add: a_def b_def)
  have gc: "count a # map snd [(sum_m b, count b)] = map of_nat [2, 6]
      \<and> sum_list [2::nat, 6] \<le> 2 ^ 24"
    by (simp add: a_def b_def)
  from all_reduce_global_sum_count_avg [OF p n, of 0 "[100, 600]" "[2, 6]", THEN conjunct2] c
  obtain s c' where r:
    "all_reduce a [(sum_m b, count b)] (Plus (Rank 0) (Rank 1))
       = Inr (a\<lparr>sum_m := s, count := c', avg := float64 (s / c')\<rparr>)"
    "sum_m a # map fst [(sum_m b, count b)] = map (\<lambda>n. of_nat n * 2 powi 0) [100, 600]
       \<and> sum_list [100::nat, 600] \<le> 2 ^ 24 \<longrightarrow> s = sum_m a + sum_list (map fst [(sum_m b, count b)])"
    "count a # map snd [(sum_m b, count b)] = map of_nat [2, 6]
       \<and> sum_list [2::nat, 6] \<le> 2 ^ 24 \<longrightarrow> c' = count a + sum_list (map snd [(sum_m b, count b)])"
    by blast
  from r(2) gs have s: "s = 700" by (simp add: a_def b_def)
  from r(3) gc have c': "c' = 8" by (simp add: a_def b_def)
  have f: "float64 (700 / 8) = 175 / 2" by code_simp
  from r(1) have "all_reduce a [(sum_m b, count b)] (Plus (Rank 0) (Rank 1))
          = Inr (a\<lparr>sum_m := 700, count := 8, avg := 175 / 2\<rparr>)"
    unfolding s c' f .
  with ua ub show ?thesis by blast
qed

text \<open>
  C3 as the specification states it, for every state of the meters, fails in two ways.
  Where no process has counted anything, \<open>all_reduce\<close> raises: two processes whose
  meters are as \<open>__init__\<close> left them, which is the state in which \<open>validate\<close> reduces
  \<open>top1\<close> and \<open>top5\<close>. And the tensor holds \<open>float32\<close>: a single process whose meter has
  the sum 0.1 (as a float) and the count 16777217 is left with the sum
  0.100000001490116 and the count 16777216.
\<close>

theorem all_reduce_zero_count_counterexample:
  "all_reduce (AverageMeter_init ''Acc@1'' '':6.2f'' AVERAGE)
      [(sum_m (AverageMeter_init ''Acc@1'' '':6.2f'' AVERAGE),
        count (AverageMeter_init ''Acc@1'' '':6.2f'' AVERAGE))] (Plus (Rank 0) (Rank 1))
     = Inl ZeroDivisionError
   \<and> all_reduce \<lparr>name = ''Acc@1'', fmt = '':6.2f'', summary_type = AVERAGE, val = 0, avg = 0,
         sum_m = 3602879701896397 / 36028797018963968, count = 16777217\<rparr> [] (Rank 0)
     = Inr \<lparr>name = ''Acc@1'', fmt = '':6.2f'', summary_type = AVERAGE, val = 0,
            avg = 13421773 / 2251799813685248,
            sum_m = 13421773 / 134217728, count = 16777216\<rparr>
   \<and> (13421773 / 134217728 :: rat) \<noteq> 3602879701896397 / 36028797018963968
   \<and> (16777216 :: rat) \<noteq> 16777217"
  by code_simp

section \<open>Properties of get_image_size\<close>

text \<open>
  C10. The keys of \<open>params_dict\<close> are the ten names \<open>efficientnet_b0\<close> to
  \<open>efficientnet_b8\<close> and \<open>efficientnet_l2\<close>. For a key, \<open>get_image_size\<close> returns the third
  component of its entry; for any other name it fails with \<open>AssertionError\<close>.
\<close>

theorem get_image_size_third_component_or_assertion:
  "dom params_dict =
     {''efficientnet_b0'', ''efficientnet_b1'', ''efficientnet_b2'', ''efficientnet_b3'',
      ''efficientnet_b4'', ''efficientnet_b5'', ''efficientnet_b6'', ''efficientnet_b7'',
      ''efficientnet_b8'', ''efficientnet_l2''} \<and>
   (\<forall>width depth res dropout.
      params_dict model_name = Some (width, depth, res, dropout)
        \<longrightarrow> get_image_size model_name = Inr res) \<and>
   (model_name \<notin> dom params_dict \<longrightarrow> get_image_size model_name = Inl AssertionError)"
proof (intro conjI)
  show "dom params_dict =
     {''efficientnet_b0'', ''efficientnet_b1'', ''efficientnet_b2'', ''efficientnet_b3'',
      ''efficientnet_b4'', ''efficientnet_b5'', ''efficientnet_b6'', ''efficientnet_b7'',
      ''efficientnet_b8'', ''efficientnet_l2''}"
    unfolding params_dict_def dom_map_of_conv_image_fst by simp
  show "\<forall>width depth res dropout.
      params_dict model_name = Some (width, depth, res, dropout)
        \<longrightarrow> get_image_size model_name = Inr res"
    by (simp add: get_image_size_def)
  show "model_name \<notin> dom params_dict \<longrightarrow> get_image_size model_name = Inl AssertionError"
    by (cases "params_dict model_name") (auto simp: get_image_size_def dom_def)
qed

theorem get_image_size_third_component_or_assertion_witness:
  "params_dict ''efficientnet_b3'' = Some (12 / 10, 14 / 10, 300, 3 / 10)
     \<and> get_image_size ''efficientnet_b3'' = Inr 300
     \<and> ''efficientnet_v2_s'' \<notin> dom params_dict
     \<and> get_image_size ''efficientnet_v2_s'' = Inl AssertionError"
proof -
  have k: "params_dict ''efficientnet_b3'' = Some (12 / 10, 14 / 10, 300, 3 / 10)"
    by (simp add: params_dict_def)
  have n: "''efficientnet_v2_s'' \<notin> dom params_dict"
    by (simp add: params_dict_def dom_def)
  from get_image_size_third_component_or_assertion [of "''efficientnet_b3''"] k
  have "get_image_size ''efficientnet_b3'' = Inr 300" by blast
  moreover from get_image_size_third_component_or_assertion [of "''efficientnet_v2_s''"] n
  have "get_image_size ''efficientnet_v2_s'' = Inl AssertionError" by blast
  ultimately show ?thesis using k n by blast
qed

section \<open>Properties of the two loops\<close>

lemma rounds_closed:
  "rounds ni i n = (if int i \<le> ni \<and> ni < int i + int n then nat (ni - int i) else n)"
proof (induction n arbitrary: i)
  case 0
  then show ?case by simp
next
  case (Suc n)
  show ?case
  proof (cases "int i = ni")
    case True
    then show ?thesis by simp
  next
    case False
    then show ?thesis by (simp add: Suc.IH [of "Suc i"]) linarith
  qed
qed

lemma rounds_executed: "rounds ni 0 n = executed ni n"
  by (auto simp: rounds_closed executed_def)

lemma update_one:
  assumes "0 \<le> count m"
  shows "\<exists>m'. update m d 1 = Inr m' \<and> 0 \<le> count m'"
proof -
  from assms have "count m + of_int 1 \<noteq> 0" by simp
  from update_Inr [OF this] assms show ?thesis by simp
qed

lemma measured_step:
  assumes "int i \<noteq> ni"
  shows "map f (filter P [i..<i + rounds ni i (Suc n)])
       = (if P i then [f i] else []) @ map f (filter P [Suc i..<Suc i + rounds ni (Suc i) n])"
proof -
  have "[i..<i + Suc (rounds ni (Suc i) n)] = i # [Suc i..<Suc i + rounds ni (Suc i) n]"
    by (simp add: upt_conv_Cons)
  moreover have "rounds ni i (Suc n) = Suc (rounds ni (Suc i) n)"
    using assms by simp
  ultimately have "[i..<i + rounds ni i (Suc n)] = i # [Suc i..<Suc i + rounds ni (Suc i) n]"
    by (simp only:)
  then show ?thesis by (simp only: filter.simps list.map append.simps split: if_splits) simp
qed

lemma run_validate_loop_closed:
  assumes "0 \<le> count (batch_time s)"
  shows "\<exists>bt. run_validate_loop a model dur i bs s
          = (None, s\<lparr>forwards := forwards s @ replicate (rounds (num_iter a) i (length bs)) model,
                     batch_time := bt\<rparr>)
        \<and> updates (batch_time s)
            (map (\<lambda>j. (dur j, 1))
               (filter (\<lambda>j. num_warmup a \<le> int j) [i..<i + rounds (num_iter a) i (length bs)]))
          = Inr bt"
  using assms
proof (induction bs arbitrary: i s)
  case Nil
  then show ?case by simp
next
  case (Cons b bs)
  let ?k = "rounds (num_iter a) (Suc i) (length bs)"
  show ?case
  proof (cases "int i = num_iter a")
    case True
    then show ?thesis by simp
  next
    case brk: False
    define ws where "ws = map (\<lambda>j. (dur j, 1::int))
        (filter (\<lambda>j. num_warmup a \<le> int j) [Suc i..<Suc i + ?k])"
    have ms: "map (\<lambda>j. (dur j, 1::int))
        (filter (\<lambda>j. num_warmup a \<le> int j) [i..<i + rounds (num_iter a) i (length (b # bs))])
      = (if num_warmup a \<le> int i then [(dur i, 1)] else []) @ ws"
      unfolding ws_def length_Cons by (rule measured_step [OF brk])
    let ?s1 = "s\<lparr>forwards := forwards s @ [model]\<rparr>"
    show ?thesis
    proof (cases "num_warmup a \<le> int i")
      case True
      from update_one [OF Cons.prems, of "dur i"] obtain bt1 where
        bt1: "update (batch_time s) (dur i) 1 = Inr bt1" "0 \<le> count bt1" by blast
      let ?s2 = "?s1\<lparr>batch_time := bt1\<rparr>"
      from bt1(2) have "0 \<le> count (batch_time ?s2)" by simp
      from Cons.IH [OF this, of "Suc i"] obtain bt where
        bt: "run_validate_loop a model dur (Suc i) bs ?s2
              = (None, ?s2\<lparr>forwards := forwards ?s2 @ replicate ?k model, batch_time := bt\<rparr>)"
          "updates (batch_time ?s2) ws = Inr bt"
        unfolding ws_def by blast
      have "run_validate_loop a model dur i (b # bs) s
          = (None, s\<lparr>forwards := forwards s @ replicate (rounds (num_iter a) i (length (b # bs))) model,
                     batch_time := bt\<rparr>)"
        using brk True bt1(1) bt(1) by (simp add: Let_def)
      moreover have "updates (batch_time s)
            (map (\<lambda>j. (dur j, 1))
               (filter (\<lambda>j. num_warmup a \<le> int j)
                  [i..<i + rounds (num_iter a) i (length (b # bs))])) = Inr bt"
        unfolding ms using True bt1(1) bt(2) by simp
      ultimately show ?thesis by blast
    next
      case False
      from Cons.prems have "0 \<le> count (batch_time ?s1)" by simp
      from Cons.IH [OF this, of "Suc i"] obtain bt where
        bt: "run_validate_loop a model dur (Suc i) bs ?s1
              = (None, ?s1\<lparr>forwards := forwards ?s1 @ replicate ?k model, batch_time := bt\<rparr>)"
          "updates (batch_time ?s1) ws = Inr bt"
        unfolding ws_def by blast
      have "run_validate_loop a model dur i (b # bs) s
          = (None, s\<lparr>forwards := forwards s @ replicate (rounds (num_iter a) i (length (b # bs))) model,
                     batch_time := bt\<rparr>)"
        using brk False bt(1) by (simp add: Let_def)
      moreover have "updates (batch_time s)
            (map (\<lambda>j. (dur j, 1))
               (filter (\<lambda>j. num_warmup a \<le> int j)
                  [i..<i + rounds (num_iter a) i (length (b # bs))])) = Inr bt"
        unfolding ms using False bt(2) by simp
      ultimately show ?thesis by blast
    qed
  qed
qed



lemma train_step_forwards:
  "forwards (snd (train_step a fw model i b s)) = forwards s @ [model]"
  by (simp add: train_step_def Let_def split: sum.splits)



lemma train_step_batch_time:
  "fst (train_step a fw model i b s) = None \<longrightarrow>
     (if num_warmup a \<le> int i
      then update (batch_time s) (duration_of fw i) 1
             = Inr (batch_time (snd (train_step a fw model i b s)))
      else batch_time (snd (train_step a fw model i b s)) = batch_time s)"
  by (simp add: train_step_def Let_def split: sum.splits)

lemma train_step_None:
  assumes "train_step a fw model i b s = (None, s')"
  shows "if num_warmup a \<le> int i
         then update (batch_time s) (duration_of fw i) 1 = Inr (batch_time s')
         else batch_time s' = batch_time s"
  using train_step_batch_time [of a fw model i b s] unfolding assms
  by (simp split: if_splits)





lemma train_loop_batch_time:
  assumes "train_loop a fw model i bs s = (None, s')"
  shows "updates (batch_time s)
            (map (\<lambda>j. (duration_of fw j, 1))
               (filter (\<lambda>j. num_warmup a \<le> int j) [i..<i + rounds (num_iter a) i (length bs)]))
          = Inr (batch_time s')"
  using assms
proof (induction bs arbitrary: i s)
  case Nil
  then show ?case by simp
next
  case (Cons b bs)
  show ?case
  proof (cases "int i = num_iter a")
    case True
    with Cons.prems show ?thesis by simp
  next
    case brk: False
    define ws where "ws = map (\<lambda>j. (duration_of fw j, 1::int))
        (filter (\<lambda>j. num_warmup a \<le> int j)
           [Suc i..<Suc i + rounds (num_iter a) (Suc i) (length bs)])"
    have ms: "map (\<lambda>j. (duration_of fw j, 1::int))
        (filter (\<lambda>j. num_warmup a \<le> int j) [i..<i + rounds (num_iter a) i (length (b # bs))])
      = (if num_warmup a \<le> int i then [(duration_of fw i, 1)] else []) @ ws"
      unfolding ws_def length_Cons by (rule measured_step [OF brk])
    obtain e s1 where st: "train_step a fw model i b s = (e, s1)"
      by (cases "train_step a fw model i b s")
    from Cons.prems brk st have e: "e = None"
      and rest: "train_loop a fw model (Suc i) bs s1 = (None, s')"
      by (auto split: option.splits)
    from Cons.IH [OF rest] have ih: "updates (batch_time s1) ws = Inr (batch_time s')"
      unfolding ws_def .
    from train_step_None [of a fw model i b s s1] st e
    have one: "if num_warmup a \<le> int i
         then update (batch_time s) (duration_of fw i) 1 = Inr (batch_time s1)
         else batch_time s1 = batch_time s"
      by simp
    show ?thesis
      unfolding ms using one ih by (simp split: if_splits)
  qed
qed

lemma train_loop_forwards_le:
  "length (forwards (snd (train_loop a fw model i bs s)))
     \<le> length (forwards s) + rounds (num_iter a) i (length bs)"
proof (induction bs arbitrary: i s)
  case Nil
  show ?case by simp
next
  case (Cons b bs)
  show ?case
  proof (cases "int i = num_iter a")
    case True
    then show ?thesis by simp
  next
    case brk: False
    obtain e s1 where st: "train_step a fw model i b s = (e, s1)"
      by (cases "train_step a fw model i b s")
    have f1: "forwards s1 = forwards s @ [model]"
      using train_step_forwards [of a fw model i b s] st by simp
    show ?thesis
    proof (cases e)
      case (Some x)
      with brk st f1 show ?thesis by simp
    next
      case None
      have "train_loop a fw model i (b # bs) s = train_loop a fw model (Suc i) bs s1"
        using brk st None by simp
      with Cons.IH [of "Suc i" s1] f1 brk show ?thesis by simp
    qed
  qed
qed

lemma train_loop_forwards_None:
  assumes "fst (train_loop a fw model i bs s) = None"
  shows "forwards (snd (train_loop a fw model i bs s))
       = forwards s @ replicate (rounds (num_iter a) i (length bs)) model"
  using assms
proof (induction bs arbitrary: i s)
  case Nil
  show ?case by simp
next
  case (Cons b bs)
  show ?case
  proof (cases "int i = num_iter a")
    case True
    then show ?thesis by simp
  next
    case brk: False
    obtain e s1 where st: "train_step a fw model i b s = (e, s1)"
      by (cases "train_step a fw model i b s")
    have f1: "forwards s1 = forwards s @ [model]"
      using train_step_forwards [of a fw model i b s] st by simp
    show ?thesis
    proof (cases e)
      case (Some x)
      with brk st Cons.prems show ?thesis by simp
    next
      case None
      have eq: "train_loop a fw model i (b # bs) s = train_loop a fw model (Suc i) bs s1"
        using brk st None by simp
      with Cons.prems have "fst (train_loop a fw model (Suc i) bs s1) = None" by simp
      from Cons.IH [OF this] eq f1 brk show ?thesis by simp
    qed
  qed
qed


lemma meters_init_fields:
  "batch_time (meters_init st p) = AverageMeter_init ''Time'' '':6.3f'' st"
  "forwards (meters_init st p) = []"
  "reported (meters_init st p) = []"
  "displayed (meters_init st p) = []"
  "printed (meters_init st p) = p"
  by (simp_all add: meters_init_def)

lemma AverageMeter_init_fields:
  "val (AverageMeter_init n f st) = 0" "avg (AverageMeter_init n f st) = 0"
  "sum_m (AverageMeter_init n f st) = 0" "count (AverageMeter_init n f st) = 0"
  by (simp_all add: AverageMeter_init_def reset_def)

lemma latency_perf_zero: "latency_perf 0 bs = Inl ZeroDivisionError"
  by (simp add: latency_perf_def py_div_def)

lemma float64_of_int:
  assumes "\<bar>bs\<bar> \<le> 2 ^ 53"
  shows "float64 (of_int bs) = of_int bs"
  unfolding float64_def using assms by (rule round_to_of_int) simp

lemma latency_perf_ok:
  assumes "x \<noteq> 0" and "bs \<noteq> 0" and "\<bar>bs\<bar> \<le> 2 ^ 53"
  shows "latency_perf x bs =
     Inr (float64 (float64 (x / of_int bs) * 1000), float64 (of_int bs / x))"
  using assms(1,2) by (simp add: latency_perf_def py_div_def float64_of_int [OF assms(3)])

text \<open>
  The two numbers against the exact quotients, and their product against 1000: each
  rounding adds a factor of at most \<open>1 + 1 / 2 ^ 53\<close>.
\<close>

lemma latency_perf_error:
  fixes x b :: rat
  assumes "x \<noteq> 0" and "b \<noteq> 0"
  shows "\<bar>float64 (float64 (x / b) * 1000) - x / b * 1000\<bar>
           \<le> ((1 + 1 / 2 ^ 53) ^ 2 - 1) * \<bar>x / b * 1000\<bar>"
    and "\<bar>float64 (b / x) - b / x\<bar> \<le> 1 / 2 ^ 53 * \<bar>b / x\<bar>"
    and "\<bar>float64 (float64 (x / b) * 1000) * float64 (b / x) - 1000\<bar>
           \<le> ((1 + 1 / 2 ^ 53) ^ 3 - 1) * 1000"
proof -
  define v :: rat where "v = 1 / 2 ^ 53"
  have v: "0 \<le> v" by (simp add: v_def)
  have "\<bar>round_to 53 (x / b) - x / b\<bar> \<le> ((1 + 0) * (1 + 1 / 2 ^ 53) - 1) * \<bar>x / b\<bar>"
    using rel_exact by (rule rel_round)
  then have q: "\<bar>float64 (x / b) - x / b\<bar> \<le> v * \<bar>x / b\<bar>"
    by (simp add: float64_def v_def)
  have "\<bar>float64 (x / b) * 1000 - x / b * 1000\<bar> \<le> ((1 + v) * (1 + 0) - 1) * \<bar>x / b * 1000\<bar>"
    using q rel_exact v by (rule rel_mult)
  then have "\<bar>float64 (x / b) * 1000 - x / b * 1000\<bar> \<le> v * \<bar>x / b * 1000\<bar>"
    by simp
  then have "\<bar>round_to 53 (float64 (x / b) * 1000) - x / b * 1000\<bar>
      \<le> ((1 + v) * (1 + 1 / 2 ^ 53) - 1) * \<bar>x / b * 1000\<bar>"
    by (rule rel_round)
  moreover have "(1 + v) * (1 + 1 / 2 ^ 53) - 1 = (1 + v) ^ 2 - 1"
    by (simp add: v_def power2_eq_square)
  ultimately have l: "\<bar>float64 (float64 (x / b) * 1000) - x / b * 1000\<bar>
      \<le> ((1 + v) ^ 2 - 1) * \<bar>x / b * 1000\<bar>"
    by (simp only: float64_def)
  then show "\<bar>float64 (float64 (x / b) * 1000) - x / b * 1000\<bar>
           \<le> ((1 + 1 / 2 ^ 53) ^ 2 - 1) * \<bar>x / b * 1000\<bar>"
    by (simp only: v_def)
  have "\<bar>round_to 53 (b / x) - b / x\<bar> \<le> ((1 + 0) * (1 + 1 / 2 ^ 53) - 1) * \<bar>b / x\<bar>"
    using rel_exact by (rule rel_round)
  then have p: "\<bar>float64 (b / x) - b / x\<bar> \<le> v * \<bar>b / x\<bar>"
    by (simp add: float64_def v_def)
  then show "\<bar>float64 (b / x) - b / x\<bar> \<le> 1 / 2 ^ 53 * \<bar>b / x\<bar>"
    by (simp only: v_def)
  have v2: "0 \<le> (1 + v) ^ 2 - 1"
    using v by (simp add: power2_eq_square algebra_simps)
  have E: "\<bar>float64 (float64 (x / b) * 1000) * float64 (b / x) - x / b * 1000 * (b / x)\<bar>
      \<le> ((1 + ((1 + v) ^ 2 - 1)) * (1 + v) - 1) * \<bar>x / b * 1000 * (b / x)\<bar>"
    using l p v2 by (rule rel_mult)
  have prod: "x / b * 1000 * (b / x) = 1000"
    using assms by simp
  have pw: "(1 + ((1 + v) ^ 2 - 1)) * (1 + v) - 1 = (1 + v) ^ 3 - 1"
    by (simp add: power2_eq_square power3_eq_cube)
  have "\<bar>float64 (float64 (x / b) * 1000) * float64 (b / x) - 1000\<bar>
      \<le> ((1 + v) ^ 3 - 1) * \<bar>1000\<bar>"
    using E unfolding prod pw .
  then have "\<bar>float64 (float64 (x / b) * 1000) * float64 (b / x) - 1000\<bar>
      \<le> ((1 + v) ^ 3 - 1) * 1000"
    by (simp only: abs_numeral)
  then show "\<bar>float64 (float64 (x / b) * 1000) * float64 (b / x) - 1000\<bar>
           \<le> ((1 + 1 / 2 ^ 53) ^ 3 - 1) * 1000"
    by (simp only: v_def)
qed

lemma format_f_error: "\<bar>format_f d x - x\<bar> \<le> 1 / (2 * 10 ^ d)"
proof -
  have "format_f d x - x = (of_int (round_half_even (x * 10 ^ d)) - x * 10 ^ d) / 10 ^ d"
    by (simp add: format_f_def diff_divide_distrib)
  then have "\<bar>format_f d x - x\<bar> = \<bar>of_int (round_half_even (x * 10 ^ d)) - x * 10 ^ d\<bar> / 10 ^ d"
    by (simp add: abs_divide)
  also have "\<dots> \<le> (1 / 2) / 10 ^ d"
    using round_half_even_bounds [of "x * 10 ^ d"] by (intro divide_right_mono) simp_all
  finally show ?thesis by simp
qed

lemma report_fields:
  "forwards (snd (report d bs s)) = forwards s"
  "batch_time (snd (report d bs s)) = batch_time s"
  by (simp_all add: report_def split: sum.splits)

lemma report_zero:
  "avg (batch_time s) = 0 \<Longrightarrow> report d bs s = (Some ZeroDivisionError, s)"
  by (simp add: report_def latency_perf_zero)

lemma report_ok:
  assumes "avg (batch_time s) \<noteq> 0" and "bs \<noteq> 0" and "\<bar>bs\<bar> \<le> 2 ^ 53"
  shows "report d bs s =
     (None, s\<lparr>reported := reported s @
                 [(float64 (float64 (avg (batch_time s) / of_int bs) * 1000),
                   float64 (of_int bs / avg (batch_time s)))],
              displayed := displayed s @
                 [(format_f d (float64 (float64 (avg (batch_time s) / of_int bs) * 1000)),
                   format_f d (float64 (of_int bs / avg (batch_time s))))]\<rparr>)"
  by (simp add: report_def latency_perf_ok [OF assms])

lemma measured_rounds:
  "filter (\<lambda>j. num_warmup a \<le> int j) [0..<0 + rounds (num_iter a) 0 n] = measured a n"
  by (simp add: measured_def rounds_executed)

lemma train_forwards:
  "forwards (snd (train a fw l model))
     = forwards (snd (train_loop a fw model 0 (batches l) (meters_init AVERAGE [])))"
  by (simp add: train_def report_fields split: prod.splits option.splits)

lemma run_validate_loop_fresh:
  "\<exists>s'. run_validate_loop a model dur 0 bs (meters_init NONE p) = (None, s')
      \<and> forwards s' = replicate (executed (num_iter a) (length bs)) model
      \<and> reported s' = [] \<and> printed s' = p
      \<and> updates (AverageMeter_init ''Time'' '':6.3f'' NONE)
           (map (\<lambda>i. (dur i, 1)) (measured a (length bs))) = Inr (batch_time s')"
proof -
  have "0 \<le> count (batch_time (meters_init NONE p :: 'a run_state))"
    by (simp add: meters_init_fields AverageMeter_init_fields)
  from run_validate_loop_closed [OF this, of a model dur 0 bs] obtain bt where
    bt: "run_validate_loop a model dur 0 bs (meters_init NONE p)
        = (None, (meters_init NONE p)\<lparr>forwards := forwards (meters_init NONE p :: 'a run_state)
               @ replicate (rounds (num_iter a) 0 (length bs)) model, batch_time := bt\<rparr>)"
      "updates (batch_time (meters_init NONE p :: 'a run_state))
         (map (\<lambda>j. (dur j, 1))
            (filter (\<lambda>j. num_warmup a \<le> int j) [0..<0 + rounds (num_iter a) 0 (length bs)]))
       = Inr bt"
    by blast
  from bt(2) have "updates (AverageMeter_init ''Time'' '':6.3f'' NONE)
      (map (\<lambda>i. (dur i, 1)) (measured a (length bs))) = Inr bt"
    by (simp only: measured_rounds meters_init_fields)
  with bt(1) show ?thesis
    by (simp add: meters_init_fields rounds_executed)
qed

lemma measured_sum_count:
  assumes "updates (AverageMeter_init n f st) (map (\<lambda>i. (dur i, 1)) is) = Inr bt"
  shows "sum_m bt = (\<Sum>i\<leftarrow>is. dur i) \<and> count bt = of_nat (length is)
     \<and> (is \<noteq> [] \<longrightarrow> avg bt = sum_m bt / count bt)
     \<and> (is = [] \<longrightarrow> avg bt = 0)
     \<and> avg bt = (if is = [] then 0 else (\<Sum>i\<leftarrow>is. dur i) / of_nat (length is))"
proof -
  have "\<forall>(v, n) \<in> set (map (\<lambda>i. (dur i, 1::int)) is). 1 \<le> n" by auto
  moreover have "0 \<le> count (AverageMeter_init n f st)"
    by (simp add: AverageMeter_init_fields)
  ultimately obtain m' where m':
    "updates (AverageMeter_init n f st) (map (\<lambda>i. (dur i, 1)) is) = Inr m'"
    "sum_m m' = sum_m (AverageMeter_init n f st) + (\<Sum>(v, n)\<leftarrow>map (\<lambda>i. (dur i, 1::int)) is. v * of_int n)"
    "count m' = count (AverageMeter_init n f st) + of_int (\<Sum>(v, n)\<leftarrow>map (\<lambda>i. (dur i, 1::int)) is. n)"
    "map (\<lambda>i. (dur i, 1::int)) is \<noteq> [] \<longrightarrow> avg m' = sum_m m' / count m' \<and> 0 < count m'"
    using updates_closed_form [of "map (\<lambda>i. (dur i, 1)) is" "AverageMeter_init n f st"] by blast
  from m'(1) assms have eq: "m' = bt" by simp
  have s: "(\<Sum>(v, n)\<leftarrow>map (\<lambda>i. (dur i, 1::int)) is. v * of_int n) = (\<Sum>i\<leftarrow>is. dur i)"
    by (simp add: comp_def)
  have c: "(\<Sum>(v, n)\<leftarrow>map (\<lambda>i. (dur i, 1::int)) is. n) = int (length is)"
    by (induction "is") simp_all
  have z: "is = [] \<longrightarrow> avg bt = 0"
    using assms by (auto simp: AverageMeter_init_fields)
  from m'(2,3,4) s c z have
    "sum_m bt = (\<Sum>i\<leftarrow>is. dur i)" "count bt = of_nat (length is)"
    "is \<noteq> [] \<longrightarrow> avg bt = sum_m bt / count bt" "is = [] \<longrightarrow> avg bt = 0"
    unfolding eq by (simp_all add: AverageMeter_init_fields)
  then show ?thesis by simp
qed


lemma executed_cases:
  "(0 \<le> ni \<longrightarrow> int (executed ni n) = min ni (int n)) \<and> (ni < 0 \<longrightarrow> executed ni n = n)"
  by (auto simp: executed_def)



lemma update_pos:
  assumes "0 \<le> count m" and "0 < n"
  shows "\<exists>m'. update m v (int n) = Inr m' \<and> 0 \<le> count m'"
proof -
  from assms have "count m + of_int (int n) \<noteq> 0"
    by (simp add: add_nonneg_pos less_imp_neq [symmetric])
  from update_Inr [OF this] assms show ?thesis by simp
qed

lemma train_step_completes:
  assumes pf: "print_freq a \<noteq> 0" and good: "good_batch (output_of fw i) b" and c: "counting s"
  shows "\<exists>s'. train_step a fw model i b s = (None, s') \<and> counting s'"
proof -
  let ?s1 = "s\<lparr>forwards := forwards s @ [model]\<rparr>"
  from good have n: "0 < fst b" and ne: "snd b \<noteq> []"
    and len: "length (snd b) = length (rows (output_of fw i))"
    and k: "Max (set [1::nat, 5]) \<le> size1 (output_of fw i)"
    by (simp_all add: good_batch_def)
  have "[1::nat, 5] \<noteq> []" by simp
  from accuracy_returns [OF this k len ne] obtain res where
    acc: "accuracy (output_of fw i) (snd b) [1, 5] = Inr res" by blast
  from c have c1: "0 \<le> count (losses ?s1)" by (simp add: counting_def)
  from update_pos [OF c1 n] obtain l where
    l: "update (losses ?s1) (loss_of fw i) (int (fst b)) = Inr l" "0 \<le> count l" by blast
  let ?s2 = "?s1\<lparr>losses := l\<rparr>"
  from c have c2: "0 \<le> count (top1 ?s2)" by (simp add: counting_def)
  from update_pos [OF c2 n] obtain t1 where
    t1: "update (top1 ?s2) (res ! 0) (int (fst b)) = Inr t1" "0 \<le> count t1" by blast
  let ?s3 = "?s2\<lparr>top1 := t1\<rparr>"
  from c have c3: "0 \<le> count (top5 ?s3)" by (simp add: counting_def)
  from update_pos [OF c3 n] obtain t5 where
    t5: "update (top5 ?s3) (res ! 1) (int (fst b)) = Inr t5" "0 \<le> count t5" by blast
  let ?s4 = "?s3\<lparr>top5 := t5\<rparr>"
  from c have c4: "0 \<le> count (batch_time ?s4)" by (simp add: counting_def)
  from update_one [OF c4] obtain bt where
    bt: "update (batch_time ?s4) (duration_of fw i) 1 = Inr bt" "0 \<le> count bt" by blast
  show ?thesis
  proof (cases "num_warmup a \<le> int i")
    case True
    have "train_step a fw model i b s = (None, ?s4\<lparr>batch_time := bt\<rparr>)"
      unfolding train_step_def Let_def using acc l(1) t1(1) t5(1) bt(1) True pf by simp
    moreover have "counting (?s4\<lparr>batch_time := bt\<rparr>)"
      using l(2) t1(2) t5(2) bt(2) by (simp add: counting_def)
    ultimately show ?thesis by blast
  next
    case False
    have "train_step a fw model i b s = (None, ?s4\<lparr>batch_time := batch_time ?s4\<rparr>)"
      unfolding train_step_def Let_def using acc l(1) t1(1) t5(1) False pf by simp
    moreover have "counting (?s4\<lparr>batch_time := batch_time ?s4\<rparr>)"
      using l(2) t1(2) t5(2) c by (simp add: counting_def)
    ultimately show ?thesis by blast
  qed
qed

lemma train_loop_completes:
  assumes pf: "print_freq a \<noteq> 0"
    and good: "\<forall>j < length bs. good_batch (output_of fw (i + j)) (bs ! j)"
    and c: "counting s"
  shows "fst (train_loop a fw model i bs s) = None"
  using good c
proof (induction bs arbitrary: i s)
  case Nil
  show ?case by simp
next
  case (Cons b bs)
  show ?case
  proof (cases "int i = num_iter a")
    case True
    then show ?thesis by simp
  next
    case False
    from Cons.prems(1) have "good_batch (output_of fw i) b" by force
    from train_step_completes [OF pf this Cons.prems(2)] obtain s' where
      s': "train_step a fw model i b s = (None, s')" "counting s'" by blast
    have "\<forall>j < length bs. good_batch (output_of fw (Suc i + j)) (bs ! j)"
    proof (intro allI impI)
      fix j assume "j < length bs"
      with Cons.prems(1) have "good_batch (output_of fw (i + Suc j)) ((b # bs) ! Suc j)"
        by (metis length_Cons Suc_less_eq)
      then show "good_batch (output_of fw (Suc i + j)) (bs ! j)" by simp
    qed
    from Cons.IH [OF this s'(2)] False s'(1) show ?thesis by simp
  qed
qed

lemma counting_init: "counting (meters_init st p)"
  by (simp add: counting_def meters_init_def AverageMeter_init_fields)

lemma train_loop_completes_fresh:
  assumes "print_freq a \<noteq> 0"
    and "\<forall>j < length bs. good_batch (output_of fw j) (bs ! j)"
  shows "fst (train_loop a fw model 0 bs (meters_init AVERAGE [])) = None"
  using assms counting_init by (intro train_loop_completes) simp_all


text \<open>
  C4, as the code has it. Every round of either loop calls the model once. Over a loader
  of \<open>n\<close> batches \<open>train\<close> makes at most \<open>executed num_iter n\<close> calls, and exactly that
  many when no round raises; a call of \<open>run_validate\<close> makes exactly that many, whatever
  \<open>batch_time\<close> has counted before. \<open>executed num_iter n\<close> is \<open>min(num_iter, n)\<close> when \<open>num_iter\<close> is not negative, and
  \<open>n\<close> when it is: the loops leave when the index equals \<open>num_iter\<close>, which an index
  counted up from 0 never does for a negative \<open>num_iter\<close>.
\<close>

theorem loops_run_executed_rounds:
  "length (forwards (snd (train a fw train_loader model)))
      \<le> executed (num_iter a) (length (batches train_loader)) \<and>
   (fst (train_loop a fw model 0 (batches train_loader) (meters_init AVERAGE [])) = None \<longrightarrow>
      forwards (snd (train a fw train_loader model))
        = replicate (executed (num_iter a) (length (batches train_loader))) model) \<and>
   (0 \<le> count (batch_time s0) \<longrightarrow>
      forwards (snd (run_validate a model dur loader s0))
        = forwards s0 @ replicate (executed (num_iter a) (length loader)) model) \<and>
   (0 \<le> num_iter a \<longrightarrow> int (executed (num_iter a) n) = min (num_iter a) (int n)) \<and>
   (num_iter a < 0 \<longrightarrow> executed (num_iter a) n = n)"
proof (intro conjI)
  show "length (forwards (snd (train a fw train_loader model)))
      \<le> executed (num_iter a) (length (batches train_loader))"
    using train_loop_forwards_le [of a fw model 0 "batches train_loader" "meters_init AVERAGE []"]
    by (simp add: train_forwards meters_init_fields rounds_executed)
  show "fst (train_loop a fw model 0 (batches train_loader) (meters_init AVERAGE [])) = None \<longrightarrow>
      forwards (snd (train a fw train_loader model))
        = replicate (executed (num_iter a) (length (batches train_loader))) model"
    using train_loop_forwards_None [of a fw model 0 "batches train_loader" "meters_init AVERAGE []"]
    by (simp add: train_forwards meters_init_fields rounds_executed)
  show "0 \<le> count (batch_time s0) \<longrightarrow>
      forwards (snd (run_validate a model dur loader s0))
        = forwards s0 @ replicate (executed (num_iter a) (length loader)) model"
  proof
    assume "0 \<le> count (batch_time s0)"
    from run_validate_loop_closed [OF this, of a model dur 0 loader] obtain bt where
      "run_validate_loop a model dur 0 loader s0
        = (None, s0\<lparr>forwards := forwards s0 @ replicate (rounds (num_iter a) 0 (length loader)) model,
                     batch_time := bt\<rparr>)"
      by blast
    then show "forwards (snd (run_validate a model dur loader s0))
        = forwards s0 @ replicate (executed (num_iter a) (length loader)) model"
      by (simp add: run_validate_def report_fields rounds_executed)
  qed
  show "0 \<le> num_iter a \<longrightarrow> int (executed (num_iter a) n) = min (num_iter a) (int n)"
    using executed_cases by blast
  show "num_iter a < 0 \<longrightarrow> executed (num_iter a) n = n"
    using executed_cases by blast
qed


theorem loops_run_executed_rounds_witness:
  "length (forwards (snd (train example_args example_framework example_train_loader (7::nat)))) \<le> 3
   \<and> forwards (snd (train example_args example_framework example_train_loader (7::nat))) = [7, 7, 7]
   \<and> forwards (snd (run_validate example_args (7::nat) (\<lambda>i. of_nat i + 1)
         (batches example_val_loader) (meters_init NONE []))) = [7, 7, 7]"
proof -
  have ok: "fst (train_loop example_args example_framework (7::nat) 0
      (batches example_train_loader) (meters_init AVERAGE [])) = None"
    by code_simp
  have ex: "executed (num_iter example_args) (length (batches example_train_loader)) = 3"
    "executed (num_iter example_args) (length (batches example_val_loader)) = 3"
    by (simp_all add: executed_def example_args_def example_train_loader_def example_val_loader_def)
  have rp: "replicate 3 (7::nat) = [7, 7, 7]"
    by (simp add: numeral_3_eq_3)
  have c: "0 \<le> count (batch_time (meters_init NONE [] :: nat run_state))"
    "forwards (meters_init NONE [] :: nat run_state) = []"
    by (simp_all add: meters_init_fields AverageMeter_init_fields)
  from loops_run_executed_rounds [of example_args example_framework example_train_loader "7::nat"
      "meters_init NONE []" "\<lambda>i. of_nat i + 1" "batches example_val_loader" 0] ok c(1)
  show ?thesis
    unfolding ex rp c(2) append_Nil by blast
qed


text \<open>
  C4 as the specification states it, a bound of \<open>min(num_iter, number of batches)\<close> for
  every configuration, fails for \<open>num_iter = -1\<close>: the loop runs through all four batches.
\<close>

theorem negative_num_iter_never_breaks_counterexample:
  "\<not> int (length (forwards (snd (run_validate (example_args\<lparr>num_iter := - 1\<rparr>) (7::nat)
            (\<lambda>i. of_nat i + 1) (batches example_val_loader) (meters_init NONE [])))))
       \<le> min (num_iter (example_args\<lparr>num_iter := - 1\<rparr>)) (int (length (batches example_val_loader)))"
proof -
  have "forwards (snd (run_validate (example_args\<lparr>num_iter := - 1\<rparr>) (7::nat)
            (\<lambda>i. of_nat i + 1) (batches example_val_loader) (meters_init NONE []))) = [7, 7, 7, 7]"
    by code_simp
  then show ?thesis by simp
qed






text \<open>
  C6, as the code has it. When the loop has ended without an exception with a positive
  \<open>batch_time.avg\<close>, and the batch size is not zero (a \<open>DataLoader\<close> accepts only a
  positive one) and at most \<open>2 ^ 53\<close>, so that it is a float, \<open>train\<close> and \<open>run_validate\<close>
  end without an exception. The latency is \<open>avg / batch_size * 1000\<close> and the throughput
  \<open>batch_size / avg\<close>, each computed in floats: the quotients and the product are
  rounded, so the latency is within a factor \<open>(1 + 1 / 2 ^ 53) ^ 2\<close> of the exact value,
  the throughput within \<open>1 + 1 / 2 ^ 53\<close>, and their product within
  \<open>(1 + 1 / 2 ^ 53) ^ 3\<close> of 1000. The numbers printed are these rounded once more, to
  whole numbers in \<open>train\<close> and to three decimals in \<open>run_validate\<close>. The batch size is
  \<open>train_loader.batch_size\<close> in \<open>train\<close> and \<open>args.batch_size\<close> in \<open>run_validate\<close>.
\<close>

theorem reported_latency_and_throughput:
  "(train_loop a fw model 0 (batches train_loader) (meters_init AVERAGE []) = (None, s) \<and>
      0 < avg (batch_time s) \<and> loader_batch_size train_loader \<noteq> 0 \<and>
      \<bar>loader_batch_size train_loader\<bar> \<le> 2 ^ 53 \<longrightarrow>
      (\<exists>latency perf.
         train a fw train_loader model =
           (None, s\<lparr>reported := reported s @ [(latency, perf)],
                    displayed := displayed s @ [(format_f 0 latency, format_f 0 perf)]\<rparr>) \<and>
         latency = float64 (float64 (avg (batch_time s)
                      / of_int (loader_batch_size train_loader)) * 1000) \<and>
         perf = float64 (of_int (loader_batch_size train_loader) / avg (batch_time s)) \<and>
         \<bar>latency - avg (batch_time s) / of_int (loader_batch_size train_loader) * 1000\<bar>
           \<le> ((1 + 1 / 2 ^ 53) ^ 2 - 1)
               * \<bar>avg (batch_time s) / of_int (loader_batch_size train_loader) * 1000\<bar> \<and>
         \<bar>perf - of_int (loader_batch_size train_loader) / avg (batch_time s)\<bar>
           \<le> 1 / 2 ^ 53 * \<bar>of_int (loader_batch_size train_loader) / avg (batch_time s)\<bar> \<and>
         \<bar>latency * perf - 1000\<bar> \<le> ((1 + 1 / 2 ^ 53) ^ 3 - 1) * 1000 \<and>
         \<bar>format_f 0 latency - latency\<bar> \<le> 1 / 2 \<and>
         \<bar>format_f 0 perf - perf\<bar> \<le> 1 / 2)) \<and>
   (run_validate_loop a model dur 0 loader s0 = (None, s') \<and>
      0 < avg (batch_time s') \<and> batch_size a \<noteq> 0 \<and> \<bar>batch_size a\<bar> \<le> 2 ^ 53 \<longrightarrow>
      (\<exists>latency perf.
         run_validate a model dur loader s0 =
           (None, s'\<lparr>reported := reported s' @ [(latency, perf)],
                     displayed := displayed s' @ [(format_f 3 latency, format_f 3 perf)]\<rparr>) \<and>
         latency = float64 (float64 (avg (batch_time s') / of_int (batch_size a)) * 1000) \<and>
         perf = float64 (of_int (batch_size a) / avg (batch_time s')) \<and>
         \<bar>latency - avg (batch_time s') / of_int (batch_size a) * 1000\<bar>
           \<le> ((1 + 1 / 2 ^ 53) ^ 2 - 1) * \<bar>avg (batch_time s') / of_int (batch_size a) * 1000\<bar> \<and>
         \<bar>perf - of_int (batch_size a) / avg (batch_time s')\<bar>
           \<le> 1 / 2 ^ 53 * \<bar>of_int (batch_size a) / avg (batch_time s')\<bar> \<and>
         \<bar>latency * perf - 1000\<bar> \<le> ((1 + 1 / 2 ^ 53) ^ 3 - 1) * 1000 \<and>
         \<bar>format_f 3 latency - latency\<bar> \<le> 1 / 2000 \<and>
         \<bar>format_f 3 perf - perf\<bar> \<le> 1 / 2000))"
proof (intro conjI impI)
  assume h: "train_loop a fw model 0 (batches train_loader) (meters_init AVERAGE []) = (None, s) \<and>
      0 < avg (batch_time s) \<and> loader_batch_size train_loader \<noteq> 0 \<and>
      \<bar>loader_batch_size train_loader\<bar> \<le> 2 ^ 53"
  define x where "x = avg (batch_time s)"
  define bs where "bs = loader_batch_size train_loader"
  from h have x: "x \<noteq> 0" and bs: "bs \<noteq> 0" and le: "\<bar>bs\<bar> \<le> 2 ^ 53"
    and loop: "train_loop a fw model 0 (batches train_loader) (meters_init AVERAGE []) = (None, s)"
    by (simp_all add: x_def bs_def)
  from bs have b: "(of_int bs :: rat) \<noteq> 0" by simp
  have run: "train a fw train_loader model =
      (None, s\<lparr>reported := reported s @
                  [(float64 (float64 (x / of_int bs) * 1000), float64 (of_int bs / x))],
               displayed := displayed s @
                  [(format_f 0 (float64 (float64 (x / of_int bs) * 1000)),
                    format_f 0 (float64 (of_int bs / x)))]\<rparr>)"
    using report_ok [of s bs 0] x bs le loop by (simp add: train_def x_def bs_def)
  have f: "\<bar>format_f 0 y - y\<bar> \<le> 1 / 2" for y
    using format_f_error [of 0 y] by simp
  from run latency_perf_error [OF x b] f
  show "\<exists>latency perf.
         train a fw train_loader model =
           (None, s\<lparr>reported := reported s @ [(latency, perf)],
                    displayed := displayed s @ [(format_f 0 latency, format_f 0 perf)]\<rparr>) \<and>
         latency = float64 (float64 (avg (batch_time s)
                      / of_int (loader_batch_size train_loader)) * 1000) \<and>
         perf = float64 (of_int (loader_batch_size train_loader) / avg (batch_time s)) \<and>
         \<bar>latency - avg (batch_time s) / of_int (loader_batch_size train_loader) * 1000\<bar>
           \<le> ((1 + 1 / 2 ^ 53) ^ 2 - 1)
               * \<bar>avg (batch_time s) / of_int (loader_batch_size train_loader) * 1000\<bar> \<and>
         \<bar>perf - of_int (loader_batch_size train_loader) / avg (batch_time s)\<bar>
           \<le> 1 / 2 ^ 53 * \<bar>of_int (loader_batch_size train_loader) / avg (batch_time s)\<bar> \<and>
         \<bar>latency * perf - 1000\<bar> \<le> ((1 + 1 / 2 ^ 53) ^ 3 - 1) * 1000 \<and>
         \<bar>format_f 0 latency - latency\<bar> \<le> 1 / 2 \<and>
         \<bar>format_f 0 perf - perf\<bar> \<le> 1 / 2"
    unfolding x_def [symmetric] bs_def [symmetric] by blast
next
  assume h: "run_validate_loop a model dur 0 loader s0 = (None, s') \<and>
      0 < avg (batch_time s') \<and> batch_size a \<noteq> 0 \<and> \<bar>batch_size a\<bar> \<le> 2 ^ 53"
  define x where "x = avg (batch_time s')"
  define bs where "bs = batch_size a"
  from h have x: "x \<noteq> 0" and bs: "bs \<noteq> 0" and le: "\<bar>bs\<bar> \<le> 2 ^ 53"
    and loop: "run_validate_loop a model dur 0 loader s0 = (None, s')"
    by (simp_all add: x_def bs_def)
  from bs have b: "(of_int bs :: rat) \<noteq> 0" by simp
  have run: "run_validate a model dur loader s0 =
      (None, s'\<lparr>reported := reported s' @
                  [(float64 (float64 (x / of_int bs) * 1000), float64 (of_int bs / x))],
               displayed := displayed s' @
                  [(format_f 3 (float64 (float64 (x / of_int bs) * 1000)),
                    format_f 3 (float64 (of_int bs / x)))]\<rparr>)"
    using report_ok [of s' bs 3] x bs le loop by (simp add: run_validate_def x_def bs_def)
  have f: "\<bar>format_f 3 y - y\<bar> \<le> 1 / 2000" for y
    using format_f_error [of 3 y] by simp
  from run latency_perf_error [OF x b] f
  show "\<exists>latency perf.
         run_validate a model dur loader s0 =
           (None, s'\<lparr>reported := reported s' @ [(latency, perf)],
                     displayed := displayed s' @ [(format_f 3 latency, format_f 3 perf)]\<rparr>) \<and>
         latency = float64 (float64 (avg (batch_time s') / of_int (batch_size a)) * 1000) \<and>
         perf = float64 (of_int (batch_size a) / avg (batch_time s')) \<and>
         \<bar>latency - avg (batch_time s') / of_int (batch_size a) * 1000\<bar>
           \<le> ((1 + 1 / 2 ^ 53) ^ 2 - 1) * \<bar>avg (batch_time s') / of_int (batch_size a) * 1000\<bar> \<and>
         \<bar>perf - of_int (batch_size a) / avg (batch_time s')\<bar>
           \<le> 1 / 2 ^ 53 * \<bar>of_int (batch_size a) / avg (batch_time s')\<bar> \<and>
         \<bar>latency * perf - 1000\<bar> \<le> ((1 + 1 / 2 ^ 53) ^ 3 - 1) * 1000 \<and>
         \<bar>format_f 3 latency - latency\<bar> \<le> 1 / 2000 \<and>
         \<bar>format_f 3 perf - perf\<bar> \<le> 1 / 2000"
    unfolding x_def [symmetric] bs_def [symmetric] by blast
qed

theorem reported_latency_and_throughput_witness:
  "reported (snd (train example_args example_framework example_train_loader (7::nat)))
      = [(1250, 3602879701896397 / 4503599627370496)]
   \<and> displayed (snd (train example_args example_framework example_train_loader (7::nat)))
      = [(1250, 1)]
   \<and> reported (snd (run_validate example_args (7::nat) (\<lambda>i. of_nat i + 1)
        (batches example_val_loader) (meters_init NONE [])))
      = [(625, 3602879701896397 / 2251799813685248)]
   \<and> displayed (snd (run_validate example_args (7::nat) (\<lambda>i. of_nat i + 1)
        (batches example_val_loader) (meters_init NONE [])))
      = [(625, 8 / 5)]"
proof -
  define s where "s = snd (train_loop example_args example_framework (7::nat) 0
      (batches example_train_loader) (meters_init AVERAGE []))"
  define s' where "s' = snd (run_validate_loop example_args (7::nat) (\<lambda>i. of_nat i + 1) 0
      (batches example_val_loader) (meters_init NONE []))"
  have "fst (train_loop example_args example_framework (7::nat) 0
      (batches example_train_loader) (meters_init AVERAGE [])) = None"
    by code_simp
  then have loop: "train_loop example_args example_framework (7::nat) 0
      (batches example_train_loader) (meters_init AVERAGE []) = (None, s)"
    unfolding s_def by (simp add: prod_eq_iff)
  have "fst (run_validate_loop example_args (7::nat) (\<lambda>i. of_nat i + 1) 0
      (batches example_val_loader) (meters_init NONE [])) = None"
    by code_simp
  then have loop': "run_validate_loop example_args (7::nat) (\<lambda>i. of_nat i + 1) 0
      (batches example_val_loader) (meters_init NONE []) = (None, s')"
    unfolding s'_def by (simp add: prod_eq_iff)
  have a: "avg (batch_time s) = 5 / 2" "reported s = []" "displayed s = []"
    unfolding s_def by code_simp+
  have a': "avg (batch_time s') = 5 / 2" "reported s' = []" "displayed s' = []"
    unfolding s'_def by code_simp+
  have b: "loader_batch_size example_train_loader = 2" "batch_size example_args = 4"
    by (simp_all add: example_train_loader_def example_args_def)
  have v: "float64 (float64 (5 / 2 / of_int 2) * 1000) = 1250"
    "float64 (of_int 2 / (5 / 2)) = 3602879701896397 / 4503599627370496"
    "format_f 0 1250 = 1250"
    "format_f 0 (3602879701896397 / 4503599627370496) = 1"
    "float64 (float64 (5 / 2 / of_int 4) * 1000) = 625"
    "float64 (of_int 4 / (5 / 2)) = 3602879701896397 / 2251799813685248"
    "format_f 3 625 = 625"
    "format_f 3 (3602879701896397 / 2251799813685248) = 8 / 5"
    by code_simp+
  note inst = reported_latency_and_throughput [of example_args example_framework "7::nat"
      example_train_loader s "\<lambda>i. of_nat i + 1" "batches example_val_loader"
      "meters_init NONE []" s']
  have h: "train_loop example_args example_framework (7::nat) 0
        (batches example_train_loader) (meters_init AVERAGE []) = (None, s) \<and>
      0 < avg (batch_time s) \<and> loader_batch_size example_train_loader \<noteq> 0 \<and>
      \<bar>loader_batch_size example_train_loader\<bar> \<le> 2 ^ 53"
    using loop by (simp add: a b)
  have h': "run_validate_loop example_args (7::nat) (\<lambda>i. of_nat i + 1) 0
        (batches example_val_loader) (meters_init NONE []) = (None, s') \<and>
      0 < avg (batch_time s') \<and> batch_size example_args \<noteq> 0 \<and>
      \<bar>batch_size example_args\<bar> \<le> 2 ^ 53"
    using loop' by (simp add: a' b)
  from inst [THEN conjunct1] h obtain latency perf where t:
    "train example_args example_framework example_train_loader (7::nat) =
       (None, s\<lparr>reported := reported s @ [(latency, perf)],
                displayed := displayed s @ [(format_f 0 latency, format_f 0 perf)]\<rparr>)"
    "latency = float64 (float64 (avg (batch_time s)
                  / of_int (loader_batch_size example_train_loader)) * 1000)"
    "perf = float64 (of_int (loader_batch_size example_train_loader) / avg (batch_time s))"
    by blast
  from inst [THEN conjunct2] h' obtain latency' perf' where r:
    "run_validate example_args (7::nat) (\<lambda>i. of_nat i + 1) (batches example_val_loader)
        (meters_init NONE []) =
       (None, s'\<lparr>reported := reported s' @ [(latency', perf')],
                 displayed := displayed s' @ [(format_f 3 latency', format_f 3 perf')]\<rparr>)"
    "latency' = float64 (float64 (avg (batch_time s') / of_int (batch_size example_args)) * 1000)"
    "perf' = float64 (of_int (batch_size example_args) / avg (batch_time s'))"
    by blast
  from t(2,3) have tv: "latency = 1250" "perf = 3602879701896397 / 4503599627370496"
    unfolding a b v by simp_all
  from r(2,3) have rv: "latency' = 625" "perf' = 3602879701896397 / 2251799813685248"
    unfolding a' b v by simp_all
  show ?thesis
    unfolding t(1) r(1) tv rv v by (simp add: a a')
qed

text \<open>
  C6 as the specification states it, that the product of the two numbers is 1000, fails
  for floats. A validation run of one measured round that took 0.3 seconds (the float
  0.299999999999999988897769753748) with a batch size of 3 computes the latency
  99.99999999999999 and the throughput 10.0, whose product is not 1000. And the run of
  \<open>train\<close> above prints a latency of 1250 ms and a throughput of 1 fps.
\<close>

theorem latency_times_throughput_counterexample:
  "avg (batch_time (snd (run_validate
        (example_args\<lparr>batch_size := 3, num_iter := 1, num_warmup := 0\<rparr>) (7::nat)
        (\<lambda>i. 5404319552844595 / 18014398509481984) [(0::nat, 0::nat)] (meters_init NONE []))))
      = 5404319552844595 / 18014398509481984
   \<and> reported (snd (run_validate
        (example_args\<lparr>batch_size := 3, num_iter := 1, num_warmup := 0\<rparr>) (7::nat)
        (\<lambda>i. 5404319552844595 / 18014398509481984) [(0::nat, 0::nat)] (meters_init NONE [])))
      = [(7036874417766399 / 70368744177664, 10)]
   \<and> (7036874417766399 / 70368744177664 :: rat) * 10 \<noteq> 1000
   \<and> displayed (snd (train example_args example_framework example_train_loader (7::nat)))
      = [(1250, 1)]
   \<and> (1250 :: rat) * 1 \<noteq> 1000"
  by code_simp


text \<open>
  C9, as the code has it. When no round was measured, \<open>batch_time.avg\<close> is still 0 after
  the loop and the report raises \<open>ZeroDivisionError\<close>; so a run of \<open>train\<close> or
  \<open>run_validate\<close> that ends without an exception has measured at least one round. No
  round is measured when \<open>0 \<le> num_iter \<le> num_warmup\<close>, or when the loader has at most
  \<open>num_warmup\<close> batches.
\<close>

theorem throughput_needs_a_measured_round:
  "(measured a (length (batches train_loader)) = [] \<and>
      train_loop a fw model 0 (batches train_loader) (meters_init AVERAGE []) = (None, s) \<longrightarrow>
      avg (batch_time s) = 0 \<and> train a fw train_loader model = (Some ZeroDivisionError, s)) \<and>
   (measured a (length loader) = [] \<longrightarrow>
      (\<exists>s'. run_validate_loop a model dur 0 loader (meters_init NONE p) = (None, s') \<and>
         avg (batch_time s') = 0 \<and>
         run_validate a model dur loader (meters_init NONE p) = (Some ZeroDivisionError, s'))) \<and>
   (fst (train a fw train_loader model) = None \<longrightarrow> measured a (length (batches train_loader)) \<noteq> []) \<and>
   (fst (run_validate a model dur loader (meters_init NONE p)) = None
      \<longrightarrow> measured a (length loader) \<noteq> []) \<and>
   ((0 \<le> num_iter a \<and> num_iter a \<le> num_warmup a) \<or> int n \<le> num_warmup a
      \<longrightarrow> measured a n = [])"
proof -
  have tr: "avg (batch_time s) = 0 \<and> train a fw train_loader model = (Some ZeroDivisionError, s)"
    if m: "measured a (length (batches train_loader)) = []"
      and loop: "train_loop a fw model 0 (batches train_loader) (meters_init AVERAGE []) = (None, s)"
    for s
  proof -
    from train_loop_batch_time [OF loop]
    have "updates (AverageMeter_init ''Time'' '':6.3f'' AVERAGE)
        (map (\<lambda>i. (duration_of fw i, 1)) (measured a (length (batches train_loader))))
      = Inr (batch_time s)"
      by (simp only: measured_rounds meters_init_fields)
    from measured_sum_count [OF this] m have z: "avg (batch_time s) = 0" by blast
    from report_zero [OF z] loop show ?thesis
      using z by (simp add: train_def)
  qed
  have va: "\<exists>s'. run_validate_loop a model dur 0 loader (meters_init NONE p) = (None, s') \<and>
         avg (batch_time s') = 0 \<and>
         run_validate a model dur loader (meters_init NONE p) = (Some ZeroDivisionError, s')"
    if m: "measured a (length loader) = []"
  proof -
    from run_validate_loop_fresh [of a model dur loader p] obtain s' where s':
      "run_validate_loop a model dur 0 loader (meters_init NONE p) = (None, s')"
      "updates (AverageMeter_init ''Time'' '':6.3f'' NONE)
        (map (\<lambda>i. (dur i, 1)) (measured a (length loader))) = Inr (batch_time s')"
      by blast
    from measured_sum_count [OF s'(2)] m have z: "avg (batch_time s') = 0" by blast
    from report_zero [OF z] s'(1) z show ?thesis
      by (simp add: run_validate_def)
  qed
  have tr_only: "measured a (length (batches train_loader)) \<noteq> []"
    if ok: "fst (train a fw train_loader model) = None"
  proof
    assume m: "measured a (length (batches train_loader)) = []"
    obtain e s where loop:
      "train_loop a fw model 0 (batches train_loader) (meters_init AVERAGE []) = (e, s)"
      by (cases "train_loop a fw model 0 (batches train_loader) (meters_init AVERAGE [])")
    show False
    proof (cases e)
      case None
      with tr [OF m] loop ok show False by simp
    next
      case (Some x)
      with loop ok show False by (simp add: train_def)
    qed
  qed
  have va_only: "measured a (length loader) \<noteq> []"
    if ok: "fst (run_validate a model dur loader (meters_init NONE p)) = None"
  proof
    assume "measured a (length loader) = []"
    from va [OF this] ok show False by auto
  qed
  have ex: "measured a n = []"
    if "(0 \<le> num_iter a \<and> num_iter a \<le> num_warmup a) \<or> int n \<le> num_warmup a"
    using that by (auto simp: measured_def executed_def filter_empty_conv)
  from tr va tr_only va_only ex show ?thesis by blast
qed

theorem throughput_needs_a_measured_round_witness:
  "measured (example_args\<lparr>num_iter := 1\<rparr>) 4 = []
   \<and> fst (run_validate (example_args\<lparr>num_iter := 1\<rparr>) (7::nat) (\<lambda>i. of_nat i + 1)
        (batches example_val_loader) (meters_init NONE [])) = Some ZeroDivisionError
   \<and> fst (train example_args example_framework example_train_loader (7::nat)) = None
   \<and> measured example_args 4 \<noteq> []"
proof -
  have l: "length (batches example_val_loader) = 4" "length (batches example_train_loader) = 4"
    by (simp_all add: example_val_loader_def example_train_loader_def)
  have m: "measured (example_args\<lparr>num_iter := 1\<rparr>) 4 = []"
    by code_simp
  have ok: "fst (train example_args example_framework example_train_loader (7::nat)) = None"
    by code_simp
  from throughput_needs_a_measured_round [of "example_args\<lparr>num_iter := 1\<rparr>" example_train_loader
      example_framework "7::nat" undefined "batches example_val_loader" "\<lambda>i. of_nat i + 1" "[]",
      THEN conjunct2, THEN conjunct1] m
  have "fst (run_validate (example_args\<lparr>num_iter := 1\<rparr>) (7::nat) (\<lambda>i. of_nat i + 1)
        (batches example_val_loader) (meters_init NONE [])) = Some ZeroDivisionError"
    unfolding l by auto
  moreover from throughput_needs_a_measured_round [of example_args example_train_loader
      example_framework "7::nat" undefined "batches example_val_loader" "\<lambda>i. of_nat i + 1" "[]",
      THEN conjunct2, THEN conjunct2, THEN conjunct1] ok
  have "measured example_args 4 \<noteq> []"
    unfolding l by blast
  ultimately show ?thesis using m ok by blast
qed


text \<open>
  C9 as the specification states it gives \<open>num_iter \<le> num_warmup\<close> as a case without a
  measured round. For \<open>num_iter = -1\<close> and \<open>num_warmup = 0\<close> the one round of a loader with
  one batch is measured, and the average is its duration.
\<close>

theorem negative_num_iter_is_measured_counterexample:
  "\<not> (num_iter (example_args\<lparr>num_iter := - 1, num_warmup := 0\<rparr>)
         \<le> num_warmup (example_args\<lparr>num_iter := - 1, num_warmup := 0\<rparr>)
       \<longrightarrow> avg (batch_time (snd (run_validate_loop (example_args\<lparr>num_iter := - 1, num_warmup := 0\<rparr>)
              (7::nat) (\<lambda>i. 2) 0 [(0::nat, 0::nat)] (meters_init NONE [])))) = 0)"
proof -
  have "avg (batch_time (snd (run_validate_loop (example_args\<lparr>num_iter := - 1, num_warmup := 0\<rparr>)
              (7::nat) (\<lambda>i. 2) 0 [(0::nat, 0::nat)] (meters_init NONE [])))) = 2"
    by code_simp
  moreover have "num_iter (example_args\<lparr>num_iter := - 1, num_warmup := 0\<rparr>)
         \<le> num_warmup (example_args\<lparr>num_iter := - 1, num_warmup := 0\<rparr>)"
    by simp
  ultimately show ?thesis by simp
qed

section \<open>Properties of validate\<close>

lemma select_model_trace_fails:
  assumes "jit a" and "batches val_loader = x # xs"
    and "jit_trace env model (fst x) = Inl e" and "e = RuntimeError \<or> e = TypeError"
    and "\<not> (bn_folding a \<and> device a = ''cuda'')"
  shows "select_model a env val_loader model =
     ([''---- fuser mode: '' @ (if nv_fuser a then ''fuser2'' else ''none''),
       ''---- JIT trace disable.'', ''failed to use PyTorch jit mode due to: ''], Inr model)"
  using assms by (auto simp: select_model_def Let_def)

lemma select_model_trace_succeeds:
  assumes "jit a" and "batches val_loader = x # xs"
    and "jit_trace env model (fst x) = Inr modelJit"
    and "\<not> (bn_folding a \<and> device a = ''cuda'')"
  shows "select_model a env val_loader model =
     ([''---- fuser mode: '' @ (if nv_fuser a then ''fuser2'' else ''none''),
       ''---- Use trace model.''], Inr modelJit)"
  using assms by (auto simp: select_model_def Let_def)

lemma select_model_no_jit:
  "select_model (a\<lparr>jit := False\<rparr>) env val_loader model =
     ([''---- fuser mode: '' @ (if nv_fuser a then ''fuser2'' else ''none'')], Inr model)"
  by (simp add: select_model_def Let_def)

lemma run_validate_loop_printed:
  "run_validate_loop a model dur i bs (s\<lparr>printed := q\<rparr>)
     = (case run_validate_loop a model dur i bs s of (r, s') \<Rightarrow> (r, s'\<lparr>printed := q\<rparr>))"
proof (induction bs arbitrary: i s)
  case Nil
  show ?case by simp
next
  case (Cons b bs)
  let ?s1 = "s\<lparr>forwards := forwards s @ [model]\<rparr>"
  have s1: "(s\<lparr>printed := q\<rparr>)\<lparr>forwards := forwards (s\<lparr>printed := q\<rparr>) @ [model]\<rparr>
      = ?s1\<lparr>printed := q\<rparr>"
    by simp
  show ?case
  proof (cases "int i = num_iter a")
    case True
    then show ?thesis by simp
  next
    case brk: False
    show ?thesis
    proof (cases "num_warmup a \<le> int i")
      case False
      with brk show ?thesis
        unfolding run_validate_loop.simps Let_def s1 by (simp add: Cons.IH)
    next
      case True
      show ?thesis
      proof (cases "update (batch_time s) (dur i) 1")
        case (Inl e)
        with brk True show ?thesis
          unfolding run_validate_loop.simps Let_def s1 by simp
      next
        case (Inr bt)
        have s2: "?s1\<lparr>printed := q, batch_time := bt\<rparr> = ?s1\<lparr>batch_time := bt\<rparr>\<lparr>printed := q\<rparr>"
          by simp
        from Inr brk True show ?thesis
          unfolding run_validate_loop.simps Let_def s1 by (simp add: s2 Cons.IH del: run_state.update_convs)
      qed
    qed
  qed
qed

lemma report_printed:
  "report d bs (s\<lparr>printed := q\<rparr>) = (case report d bs s of (r, s') \<Rightarrow> (r, s'\<lparr>printed := q\<rparr>))"
  by (simp add: report_def split: sum.splits)

lemma run_validate_printed:
  "run_validate a model dur loader (s\<lparr>printed := q\<rparr>)
     = (case run_validate a model dur loader s of (r, s') \<Rightarrow> (r, s'\<lparr>printed := q\<rparr>))"
proof -
  obtain e s' where l: "run_validate_loop a model dur 0 loader s = (e, s')"
    by (cases "run_validate_loop a model dur 0 loader s")
  then show ?thesis
    by (cases e) (simp_all add: run_validate_def run_validate_loop_printed report_printed)
qed

lemma validate_distributed_printed:
  "validate_distributed a env val_loader model (s\<lparr>printed := q\<rparr>)
     = (case validate_distributed a env val_loader model s of (r, s') \<Rightarrow> (r, s'\<lparr>printed := q\<rparr>))"
proof (cases "all_reduce (top1 s) (others_top1 env) (reduction env)")
  case (Inl e)
  then show ?thesis by (simp add: validate_distributed_def)
next
  case t1: (Inr t1)
  show ?thesis
  proof (cases "all_reduce (top5 (s\<lparr>top1 := t1\<rparr>)) (others_top5 env) (reduction env)")
    case (Inl e)
    with t1 show ?thesis by (simp add: validate_distributed_def)
  next
    case (Inr t5)
    have eq: "s\<lparr>printed := q, top1 := t1, top5 := t5\<rparr> = s\<lparr>top1 := t1, top5 := t5\<rparr>\<lparr>printed := q\<rparr>"
      by simp
    from t1 Inr show ?thesis
      by (simp add: validate_distributed_def Let_def eq run_validate_printed
          del: run_state.update_convs)
  qed
qed

lemma run_validate_loop_jit:
  "run_validate_loop (a\<lparr>jit := j\<rparr>) model dur i bs s = run_validate_loop a model dur i bs s"
  by (induction bs arbitrary: i s) (simp_all add: Let_def cong: sum.case_cong)

lemma run_validate_jit:
  "run_validate (a\<lparr>jit := j\<rparr>) model dur loader s = run_validate a model dur loader s"
  by (simp add: run_validate_def run_validate_loop_jit cong: prod.case_cong option.case_cong)

lemma validate_distributed_jit:
  "validate_distributed (a\<lparr>jit := j\<rparr>) env val_loader model s
     = validate_distributed a env val_loader model s"
  by (simp add: validate_distributed_def run_validate_jit Let_def cong: sum.case_cong if_cong)

text \<open>What \<open>validate\<close> does once the model is chosen and \<open>p\<close> is printed.\<close>

lemma validate_after_selection:
  assumes "select_model a env val_loader model0 = (p, Inr model)"
    and "select_model (a\<lparr>jit := False\<rparr>) env val_loader model1 = (p0, Inr model)"
  shows "validate a env val_loader model0
     = (case validate (a\<lparr>jit := False\<rparr>) env val_loader model1 of
          (r, s) \<Rightarrow> (r, s\<lparr>printed := p\<rparr>))"
proof -
  let ?a' = "a\<lparr>jit := False\<rparr>"
  have init: "meters_init NONE p = (meters_init NONE p0 :: 'a run_state)\<lparr>printed := p\<rparr>"
    by (simp add: meters_init_def)
  obtain e s where r: "run_validate a model (duration env) (batches val_loader)
      (meters_init NONE p0) = (e, s)"
    by (cases "run_validate a model (duration env) (batches val_loader) (meters_init NONE p0)")
  then have r': "run_validate a model (duration env) (batches val_loader)
      (meters_init NONE p) = (e, s\<lparr>printed := p\<rparr>)"
    unfolding init by (simp add: run_validate_printed)
  show ?thesis
  proof (cases e)
    case (Some x)
    with assms r r' show ?thesis
      by (simp add: validate_def run_validate_jit)
  next
    case None
    with assms r r' show ?thesis
      by (simp add: validate_def run_validate_jit validate_distributed_jit
          validate_distributed_printed)
  qed
qed

text \<open>The calls of the model that a call of \<open>run_validate\<close> adds.\<close>

lemma run_validate_forwards:
  assumes "0 \<le> count (batch_time s0)"
  shows "forwards (snd (run_validate a model dur loader s0))
       = forwards s0 @ replicate (executed (num_iter a) (length loader)) model
     \<and> batch_time (snd (run_validate a model dur loader s0))
       = batch_time (snd (run_validate_loop a model dur 0 loader s0))
     \<and> 0 \<le> count (batch_time (snd (run_validate a model dur loader s0)))"
proof -
  from run_validate_loop_closed [OF assms, of a model dur 0 loader] obtain bt where
    l: "run_validate_loop a model dur 0 loader s0
        = (None, s0\<lparr>forwards := forwards s0 @ replicate (rounds (num_iter a) 0 (length loader)) model,
                     batch_time := bt\<rparr>)"
    and u: "updates (batch_time s0)
            (map (\<lambda>j. (dur j, 1))
               (filter (\<lambda>j. num_warmup a \<le> int j)
                  [0..<0 + rounds (num_iter a) 0 (length loader)])) = Inr bt"
    by blast
  define js where "js = filter (\<lambda>j. num_warmup a \<le> int j)
      [0..<0 + rounds (num_iter a) 0 (length loader)]"
  have all1: "\<forall>(v, n) \<in> set (map (\<lambda>j. (dur j, 1::int)) js). 1 \<le> n"
    by auto
  have len: "(\<Sum>(v, n)\<leftarrow>map (\<lambda>j. (dur j, 1::int)) js. n) = int (length js)"
    by (induction js) simp_all
  from updates_closed_form [OF all1 assms] u obtain m' where
    "Inr m' = (Inr bt :: error + AverageMeter)"
    "count m' = count (batch_time s0) + of_int (\<Sum>(v, n)\<leftarrow>map (\<lambda>j. (dur j, 1::int)) js. n)"
    unfolding js_def by metis
  then have "count bt = count (batch_time s0) + of_nat (length js)"
    unfolding len by simp
  with assms have "0 \<le> count bt" by simp
  with l show ?thesis
    by (simp add: run_validate_def report_fields rounds_executed)
qed

lemma validate_distributed_forwards:
  assumes "0 \<le> count (batch_time s)"
  shows "\<exists>k. forwards (snd (validate_distributed a env val_loader model s))
       = forwards s @ replicate k model"
proof (cases "all_reduce (top1 s) (others_top1 env) (reduction env)")
  case (Inl e)
  then have "forwards (snd (validate_distributed a env val_loader model s))
      = forwards s @ replicate 0 model"
    by (simp add: validate_distributed_def)
  then show ?thesis by blast
next
  case t1: (Inr t1)
  show ?thesis
  proof (cases "all_reduce (top5 (s\<lparr>top1 := t1\<rparr>)) (others_top5 env) (reduction env)")
    case (Inl e)
    with t1 have "forwards (snd (validate_distributed a env val_loader model s))
        = forwards s @ replicate 0 model"
      by (simp add: validate_distributed_def)
    then show ?thesis by blast
  next
    case (Inr t5)
    let ?s2 = "s\<lparr>top1 := t1, top5 := t5\<rparr>"
    from assms have c: "0 \<le> count (batch_time ?s2)" by simp
    show ?thesis
    proof (cases "int (sampler_len val_loader) * world_size a < int (dataset_len val_loader)")
      case True
      with t1 Inr have "validate_distributed a env val_loader model s
          = run_validate a model (aux_duration env) (aux_batches env) ?s2"
        by (simp add: validate_distributed_def Let_def)
      with run_validate_forwards [OF c, of a model "aux_duration env" "aux_batches env"]
      have "forwards (snd (validate_distributed a env val_loader model s))
          = forwards s @ replicate (executed (num_iter a) (length (aux_batches env))) model"
        by simp
      then show ?thesis by blast
    next
      case False
      with t1 Inr have "forwards (snd (validate_distributed a env val_loader model s))
          = forwards s @ replicate 0 model"
        by (simp add: validate_distributed_def Let_def)
      then show ?thesis by blast
    qed
  qed
qed

lemma validate_forwards:
  assumes "select_model a env val_loader model0 = (p, Inr model)"
  shows "\<exists>k. forwards (snd (validate a env val_loader model0))
       = replicate (executed (num_iter a) (length (batches val_loader)) + k) model"
proof -
  let ?n = "executed (num_iter a) (length (batches val_loader))"
  have c0: "0 \<le> count (batch_time (meters_init NONE p :: 'a run_state))"
    by (simp add: meters_init_fields AverageMeter_init_fields)
  obtain e s where r: "run_validate a model (duration env) (batches val_loader)
      (meters_init NONE p) = (e, s)"
    by (cases "run_validate a model (duration env) (batches val_loader) (meters_init NONE p)")
  from run_validate_forwards [OF c0, of a model "duration env" "batches val_loader"] r
  have f: "forwards s = replicate ?n model" and c: "0 \<le> count (batch_time s)"
    by (auto simp: meters_init_fields)
  show ?thesis
  proof (cases "e = None \<and> distributed a")
    case True
    with assms r have "validate a env val_loader model0 = validate_distributed a env val_loader model s"
      by (simp add: validate_def)
    with validate_distributed_forwards [OF c, of a env val_loader model] f
    show ?thesis by (auto simp: replicate_add)
  next
    case False
    with assms r have "snd (validate a env val_loader model0) = s"
      by (cases e) (auto simp: validate_def)
    with f have "forwards (snd (validate a env val_loader model0)) = replicate (?n + 0) model"
      by simp
    then show ?thesis by blast
  qed
qed

lemma select_model_NameError:
  assumes "jit a" and "bn_folding a" and "device a = ''cuda''"
    and "batches val_loader = x # xs"
  shows "jit_trace env model (fst x) = Inl e \<and> (e = RuntimeError \<or> e = TypeError) \<longrightarrow>
       select_model a env val_loader model =
         ([''---- fuser mode: '' @ (if nv_fuser a then ''fuser2'' else ''none''),
           ''---- JIT trace disable.'', ''failed to use PyTorch jit mode due to: ''],
          Inl NameError)"
    and "jit_trace env model (fst x) = Inr modelJit \<longrightarrow>
       select_model a env val_loader model =
         ([''---- fuser mode: '' @ (if nv_fuser a then ''fuser2'' else ''none''),
           ''---- Use trace model.''], Inl NameError)"
  using assms by (auto simp: select_model_def Let_def)

text \<open>
  C7, against the code. Let \<open>args.jit\<close> and \<open>args.bn_folding\<close> be set, the device be
  \<open>cuda\<close> and the loader have a first batch. When \<open>torch.jit.trace\<close> raises
  \<open>RuntimeError\<close> or \<open>TypeError\<close>, \<open>validate\<close> prints the two lines of the handler and
  then ends with \<open>NameError\<close>, raised by the call of the undefined \<open>wrap_cpp_module\<close>: no
  meter is updated and the model is never called. When the trace succeeds, \<open>validate\<close>
  ends with the same exception after the line \<open>---- Use trace model.\<close>
\<close>

theorem bn_folding_on_cuda_raises_NameError:
  assumes "jit a" and "bn_folding a" and "device a = ''cuda''"
    and "batches val_loader = x # xs"
  shows
   "(jit_trace env model (fst x) = Inl e \<and> (e = RuntimeError \<or> e = TypeError) \<longrightarrow>
       validate a env val_loader model =
         (Some NameError,
          meters_init NONE
            [''---- fuser mode: '' @ (if nv_fuser a then ''fuser2'' else ''none''),
             ''---- JIT trace disable.'', ''failed to use PyTorch jit mode due to: ''])) \<and>
    (jit_trace env model (fst x) = Inr modelJit \<longrightarrow>
       validate a env val_loader model =
         (Some NameError,
          meters_init NONE
            [''---- fuser mode: '' @ (if nv_fuser a then ''fuser2'' else ''none''),
             ''---- Use trace model.'']))"
  using select_model_NameError(1) [OF assms, where env = env and model = model and e = e]
    select_model_NameError(2) [OF assms, where env = env and model = model and modelJit = modelJit]
  by (simp add: validate_def)

theorem bn_folding_on_cuda_raises_NameError_witness:
  "jit_trace example_environment (7::nat) (fst (hd (batches example_val_loader))) = Inl RuntimeError
   \<and> validate (example_args\<lparr>jit := True, bn_folding := True, device := ''cuda''\<rparr>)
        example_environment example_val_loader (7::nat)
      = (Some NameError,
         meters_init NONE [''---- fuser mode: none'', ''---- JIT trace disable.'',
                           ''failed to use PyTorch jit mode due to: ''])
   \<and> forwards (snd (validate (example_args\<lparr>jit := True, bn_folding := True, device := ''cuda''\<rparr>)
        example_environment example_val_loader (7::nat))) = []
   \<and> validate (example_args\<lparr>jit := True, bn_folding := True, device := ''cuda''\<rparr>)
        (example_environment\<lparr>jit_trace := (\<lambda>m x. Inr (m + 100))\<rparr>) example_val_loader (7::nat)
      = (Some NameError, meters_init NONE [''---- fuser mode: none'', ''---- Use trace model.''])"
proof -
  let ?a = "example_args\<lparr>jit := True, bn_folding := True, device := ''cuda''\<rparr>"
  have j: "jit ?a" and f: "bn_folding ?a" and d: "device ?a = ''cuda''" by simp_all
  have b: "batches example_val_loader = (0, 0) # [(1, 1), (2, 2), (3, 3)]"
    by (simp add: example_val_loader_def)
  have t: "jit_trace example_environment (7::nat) (fst (0::nat, 0::nat)) = Inl RuntimeError"
    by (simp add: example_environment_def)
  have nf: "nv_fuser ?a = False" by (simp add: example_args_def)
  note fails = bn_folding_on_cuda_raises_NameError [OF j f d b, of example_environment 7 RuntimeError,
      THEN conjunct1, simplified t nf, simplified]
  note succeeds = bn_folding_on_cuda_raises_NameError [OF j f d b,
      of "example_environment\<lparr>jit_trace := (\<lambda>m x. Inr (m + 100))\<rparr>" 7 _ 107,
      THEN conjunct2, simplified nf, simplified]
  have "jit_trace example_environment (7::nat) (fst (hd (batches example_val_loader)))
      = Inl RuntimeError"
    by (simp add: example_environment_def)
  with fails succeeds show ?thesis
    by (simp add: meters_init_fields)
qed

text \<open>
  The fallback where the folding statement is not reached. Let \<open>args.jit\<close> be set, the
  loader have a first batch, and \<open>args.bn_folding\<close> not be set together with the device
  \<open>cuda\<close>. When \<open>torch.jit.trace\<close> raises \<open>RuntimeError\<close> or \<open>TypeError\<close>, \<open>validate\<close>
  prints the two lines of the handler and goes on with the model that was passed in: it
  runs the loop over the loader, every call of the model is a call of that one, and
  \<open>validate\<close> ends as it does without \<open>--jit\<close>, but for the lines printed. When the trace
  succeeds, \<open>validate\<close> runs the loop with the traced model and ends as it does without
  \<open>--jit\<close> on the traced model.
\<close>

theorem jit_trace_failure_falls_back:
  assumes "jit a" and "batches val_loader = x # xs"
    and "\<not> (bn_folding a \<and> device a = ''cuda'')"
  shows
   "(jit_trace env model (fst x) = Inl e \<and> (e = RuntimeError \<or> e = TypeError) \<longrightarrow>
       select_model a env val_loader model =
         ([''---- fuser mode: '' @ (if nv_fuser a then ''fuser2'' else ''none''),
           ''---- JIT trace disable.'', ''failed to use PyTorch jit mode due to: ''], Inr model) \<and>
       (\<exists>k. forwards (snd (validate a env val_loader model))
            = replicate (executed (num_iter a) (length (batches val_loader)) + k) model) \<and>
       validate a env val_loader model =
         (case validate (a\<lparr>jit := False\<rparr>) env val_loader model of
            (r, s) \<Rightarrow>
              (r, s\<lparr>printed :=
                 [''---- fuser mode: '' @ (if nv_fuser a then ''fuser2'' else ''none''),
                  ''---- JIT trace disable.'', ''failed to use PyTorch jit mode due to: '']\<rparr>))) \<and>
    (jit_trace env model (fst x) = Inr modelJit \<longrightarrow>
       select_model a env val_loader model =
         ([''---- fuser mode: '' @ (if nv_fuser a then ''fuser2'' else ''none''),
           ''---- Use trace model.''], Inr modelJit) \<and>
       (\<exists>k. forwards (snd (validate a env val_loader model))
            = replicate (executed (num_iter a) (length (batches val_loader)) + k) modelJit) \<and>
       validate a env val_loader model =
         (case validate (a\<lparr>jit := False\<rparr>) env val_loader modelJit of
            (r, s) \<Rightarrow>
              (r, s\<lparr>printed :=
                 [''---- fuser mode: '' @ (if nv_fuser a then ''fuser2'' else ''none''),
                  ''---- Use trace model.'']\<rparr>)))"
proof (intro conjI impI)
  assume h: "jit_trace env model (fst x) = Inl e \<and> (e = RuntimeError \<or> e = TypeError)"
  then have tr: "jit_trace env model (fst x) = Inl e" and e: "e = RuntimeError \<or> e = TypeError"
    by simp_all
  show sel: "select_model a env val_loader model =
         ([''---- fuser mode: '' @ (if nv_fuser a then ''fuser2'' else ''none''),
           ''---- JIT trace disable.'', ''failed to use PyTorch jit mode due to: ''], Inr model)"
    using assms(1,2) tr e assms(3) by (rule select_model_trace_fails)
  from validate_forwards [OF sel]
  show "\<exists>k. forwards (snd (validate a env val_loader model))
            = replicate (executed (num_iter a) (length (batches val_loader)) + k) model" .
  from validate_after_selection [OF sel select_model_no_jit]
  show "validate a env val_loader model =
         (case validate (a\<lparr>jit := False\<rparr>) env val_loader model of
            (r, s) \<Rightarrow>
              (r, s\<lparr>printed :=
                 [''---- fuser mode: '' @ (if nv_fuser a then ''fuser2'' else ''none''),
                  ''---- JIT trace disable.'', ''failed to use PyTorch jit mode due to: '']\<rparr>))" .
next
  assume tr: "jit_trace env model (fst x) = Inr modelJit"
  show sel: "select_model a env val_loader model =
         ([''---- fuser mode: '' @ (if nv_fuser a then ''fuser2'' else ''none''),
           ''---- Use trace model.''], Inr modelJit)"
    using assms(1,2) tr assms(3) by (rule select_model_trace_succeeds)
  from validate_forwards [OF sel]
  show "\<exists>k. forwards (snd (validate a env val_loader model))
            = replicate (executed (num_iter a) (length (batches val_loader)) + k) modelJit" .
  from validate_after_selection [OF sel select_model_no_jit]
  show "validate a env val_loader model =
         (case validate (a\<lparr>jit := False\<rparr>) env val_loader modelJit of
            (r, s) \<Rightarrow>
              (r, s\<lparr>printed :=
                 [''---- fuser mode: '' @ (if nv_fuser a then ''fuser2'' else ''none''),
                  ''---- Use trace model.'']\<rparr>))" .
qed

theorem jit_trace_failure_falls_back_witness:
  "jit_trace example_environment (7::nat) 0 = Inl RuntimeError
   \<and> forwards (snd (validate (example_args\<lparr>jit := True\<rparr>) example_environment
          example_val_loader 7)) = [7, 7, 7]
   \<and> validate (example_args\<lparr>jit := True\<rparr>) example_environment example_val_loader 7
       = (case validate example_args example_environment example_val_loader 7 of
            (r, s) \<Rightarrow> (r, s\<lparr>printed := [''---- fuser mode: none'', ''---- JIT trace disable.'',
                                         ''failed to use PyTorch jit mode due to: '']\<rparr>))
   \<and> forwards (snd (validate (example_args\<lparr>jit := True\<rparr>)
          (example_environment\<lparr>jit_trace := (\<lambda>m x. Inr (m + 100))\<rparr>)
          example_val_loader 7)) = [107, 107, 107]
   \<and> fst (validate (example_args\<lparr>jit := True\<rparr>) example_environment example_val_loader 7) = None"
proof -
  let ?a = "example_args\<lparr>jit := True\<rparr>"
  let ?env = "example_environment\<lparr>jit_trace := (\<lambda>m x. Inr (m + 100))\<rparr>"
  have j: "jit ?a" by simp
  have b: "batches example_val_loader = (0, 0) # [(1, 1), (2, 2), (3, 3)]"
    by (simp add: example_val_loader_def)
  have n: "\<not> (bn_folding ?a \<and> device ?a = ''cuda'')"
    by (simp add: example_args_def)
  have f: "jit_trace example_environment (7::nat) (fst (0::nat, 0::nat)) = Inl RuntimeError"
    by (simp add: example_environment_def)
  have a': "?a\<lparr>jit := False\<rparr> = example_args" "nv_fuser ?a = False"
    by (simp_all add: example_args_def)
  have ok: "fst (validate ?a example_environment example_val_loader 7) = None"
    by code_simp
  have fw: "forwards (snd (validate example_args example_environment example_val_loader 7))
      = [7, 7, 7]"
    "forwards (snd (validate example_args ?env example_val_loader 107)) = [107, 107, 107]"
    by code_simp+
  note fails = jit_trace_failure_falls_back [OF j b n, of example_environment 7 RuntimeError,
      THEN conjunct1, simplified f a', simplified]
  note succeeds = jit_trace_failure_falls_back [OF j b n, of ?env 7 _ 107,
      THEN conjunct2, simplified a', simplified]
  from fails
  have v: "validate ?a example_environment example_val_loader 7
       = (case validate example_args example_environment example_val_loader 7 of
            (r, s) \<Rightarrow> (r, s\<lparr>printed := [''---- fuser mode: none'', ''---- JIT trace disable.'',
                                         ''failed to use PyTorch jit mode due to: '']\<rparr>))"
    by blast
  from succeeds
  have v': "validate ?a ?env example_val_loader 7
       = (case validate example_args ?env example_val_loader 107 of
            (r, s) \<Rightarrow> (r, s\<lparr>printed := [''---- fuser mode: none'', ''---- Use trace model.'']\<rparr>))"
    by blast
  have "forwards (snd (validate ?a example_environment example_val_loader 7)) = [7, 7, 7]"
    unfolding v using fw(1) by (simp add: split_beta)
  moreover have "forwards (snd (validate ?a ?env example_val_loader 7)) = [107, 107, 107]"
    unfolding v' using fw(2) by (simp add: split_beta)
  ultimately show ?thesis using f v ok by (simp only: fst_conv simp_thms)
qed

end
